theory Spec2Isabelle
  imports Complex_Main "HOL-Library.Word" "HOL-Library.Multiset" "HOL-Library.Product_Lexorder"
begin

section \<open>Bytes, strings and paths\<close>

text \<open>
  A file's content is a list of bytes. Text is a \<^typ>\<open>string\<close>; one \<^typ>\<open>char\<close> stands for one
  code point of a Python \<open>str\<close>, so the texts of this theory are those whose code points
  are below 256 (ASCII and the Latin-1 supplement). The character classes \<open>\s\<close>, \<open>\w\<close>
  and \<open>\d\<close> and the mapping \<open>str.lower\<close> below are Python's on these code points.
  A \<open>pathlib.Path\<close> is the list of its components.
\<close>

type_synonym byte = "8 word"
type_synonym bytes = "byte list"
type_synonym path = "string list"

definition startswith :: "'a list \<Rightarrow> 'a list \<Rightarrow> bool" where
  \<comment> \<open>\<open>data.startswith(prefix)\<close>\<close>
  "startswith data pre = (take (length pre) data = pre)"

definition py_slice :: "nat \<Rightarrow> nat \<Rightarrow> 'a list \<Rightarrow> 'a list" where
  \<comment> \<open>\<open>data[i:j]\<close> for \<open>0 \<le> i \<le> j\<close>\<close>
  "py_slice i j data = take (j - i) (drop i data)"

section \<open>Extension sniffer\<close>

definition PNG_SIG :: bytes where
  \<comment> \<open>\<open>b"\x89PNG\r\n\x1a\n"\<close>\<close>
  "PNG_SIG = [0x89, 0x50, 0x4E, 0x47, 0x0D, 0x0A, 0x1A, 0x0A]"

definition JPEG_SIG :: bytes where
  \<comment> \<open>\<open>b"\xff\xd8\xff"\<close>\<close>
  "JPEG_SIG = [0xFF, 0xD8, 0xFF]"

definition GIF87a :: bytes where
  "GIF87a = [0x47, 0x49, 0x46, 0x38, 0x37, 0x61]"

definition GIF89a :: bytes where
  "GIF89a = [0x47, 0x49, 0x46, 0x38, 0x39, 0x61]"

definition RIFF :: bytes where
  "RIFF = [0x52, 0x49, 0x46, 0x46]"

definition WEBP :: bytes where
  "WEBP = [0x57, 0x45, 0x42, 0x50]"

text \<open>
  \<open>detect_ext_from_file\<close> of \<open>export_issues_prs.py\<close>. The argument is what
  \<open>path.read_bytes()\<close> gives: \<open>None\<close> when the read raises (the \<open>except\<close> branch returns
  Python's \<open>None\<close>), the content otherwise. The result \<open>None\<close> is the "unknown" kind.
\<close>

definition detect_ext_from_file :: "bytes option \<Rightarrow> string option" where
  "detect_ext_from_file rd =
     (case rd of
        None \<Rightarrow> None
      | Some content \<Rightarrow>
          (let data = take 12 content in
           if startswith data PNG_SIG then Some ''.png''
           else if startswith data JPEG_SIG then Some ''.jpg''
           else if startswith data GIF87a \<or> startswith data GIF89a then Some ''.gif''
           else if length data \<ge> 12 \<and> py_slice 0 4 data = RIFF \<and> py_slice 8 12 data = WEBP
             then Some ''.webp''
           else None))"

text \<open>\<open>detect_ext\<close> of \<open>cleanup_img_ext.py\<close>, a textual copy of the function above.\<close>

definition detect_ext :: "bytes option \<Rightarrow> string option" where
  "detect_ext rd =
     (case rd of
        None \<Rightarrow> None
      | Some content \<Rightarrow>
          (let data = take 12 content in
           if startswith data PNG_SIG then Some ''.png''
           else if startswith data JPEG_SIG then Some ''.jpg''
           else if startswith data GIF87a \<or> startswith data GIF89a then Some ''.gif''
           else if length data \<ge> 12 \<and> py_slice 0 4 data = RIFF \<and> py_slice 8 12 data = WEBP
             then Some ''.webp''
           else None))"

section \<open>File names derived from URLs\<close>

datatype error = ValueError | JSONDecodeError | OtherError

definition is_digit :: "char \<Rightarrow> bool" where
  "is_digit c = (let n = (of_char c :: nat) in 48 \<le> n \<and> n \<le> 57)"

definition is_upper :: "char \<Rightarrow> bool" where
  "is_upper c = (let n = (of_char c :: nat) in 65 \<le> n \<and> n \<le> 90)"

definition is_lower :: "char \<Rightarrow> bool" where
  "is_lower c = (let n = (of_char c :: nat) in 97 \<le> n \<and> n \<le> 122)"

definition is_alpha :: "char \<Rightarrow> bool" where
  "is_alpha c = (is_upper c \<or> is_lower c)"

definition is_space :: "char \<Rightarrow> bool" where
  \<comment> \<open>\<open>\s\<close>: tab, line feed, vertical tab, form feed, carriage return, the four
      separators 0x1C-0x1F, the space, the next-line control 0x85 and the no-break space 0xA0\<close>
  "is_space c =
     (let n = (of_char c :: nat)
      in (9 \<le> n \<and> n \<le> 13) \<or> (28 \<le> n \<and> n \<le> 32) \<or> n = 133 \<or> n = 160)"

definition is_word :: "char \<Rightarrow> bool" where
  \<comment> \<open>\<open>\w\<close>: the underscore and what \<open>str.isalnum\<close> accepts, which above ASCII are the
      ordinal indicators, the micro sign, the superscript digits, the vulgar fractions and
      the letters from 0xC0 on (the multiplication and the division sign are no letters)\<close>
  "is_word c =
     (let n = (of_char c :: nat)
      in is_alpha c \<or> is_digit c \<or> c = CHR ''_''
         \<or> n \<in> {170, 178, 179, 181, 185, 186, 188, 189, 190}
         \<or> (192 \<le> n \<and> n \<noteq> 215 \<and> n \<noteq> 247))"

definition is_capital :: "char \<Rightarrow> bool" where
  \<comment> \<open>the characters that \<open>str.lower\<close> changes: \<open>A\<close> to \<open>Z\<close>, and 0xC0 to 0xDE without the
      multiplication sign 0xD7\<close>
  "is_capital c =
     (let n = (of_char c :: nat) in is_upper c \<or> (192 \<le> n \<and> n \<le> 222 \<and> n \<noteq> 215))"

definition lower_char :: "char \<Rightarrow> char" where
  \<comment> \<open>the lower-case form of each of them is 32 code points above it\<close>
  "lower_char c = (if is_capital c then char_of (of_char c + (32::nat)) else c)"

definition lower :: "string \<Rightarrow> string" where
  \<comment> \<open>\<open>str.lower()\<close>\<close>
  "lower s = map lower_char s"

definition is_safe :: "char \<Rightarrow> bool" where
  \<comment> \<open>the class \<open>[A-Za-z0-9._-]\<close>\<close>
  "is_safe c = (is_alpha c \<or> is_digit c \<or> c = CHR ''.'' \<or> c = CHR ''_'' \<or> c = CHR ''-'')"

function collapse_unsafe :: "string \<Rightarrow> string" where
  \<comment> \<open>\<open>re.sub(r"[^A-Za-z0-9._-]+", "_", name)\<close>: every maximal run of characters outside the
      class becomes one underscore\<close>
  "collapse_unsafe [] = []"
| "collapse_unsafe (c # cs) =
     (if is_safe c then c # collapse_unsafe cs
      else CHR ''_'' # collapse_unsafe (dropWhile (\<lambda>d. \<not> is_safe d) cs))"
  by pat_completeness auto
termination
  by (relation "measure length") (auto simp: less_Suc_eq_le length_dropWhile_le)

definition strip_chars :: "(char \<Rightarrow> bool) \<Rightarrow> string \<Rightarrow> string" where
  \<comment> \<open>\<open>str.strip(chars)\<close>\<close>
  "strip_chars p s = rev (dropWhile p (rev (dropWhile p s)))"

definition sanitize_name :: "string \<Rightarrow> string" where
  "sanitize_name name =
     (let cleaned = collapse_unsafe name;
          cleaned = strip_chars (\<lambda>c. c = CHR ''_'') cleaned
      in if cleaned = [] then ''image'' else cleaned)"

text \<open>
  \<open>urllib.parse.urlsplit\<close>, as far as the program uses it: leading C0 controls and spaces are
  stripped, tab, carriage return and line feed are removed, then come the scheme, the network
  location after \<open>//\<close>, the fragment after the first \<open>#\<close> and the query after the first \<open>?\<close>.
  It raises \<open>ValueError\<close> when the network location holds one square bracket without the
  other, and when the library's further checks of the network location fail (the validation
  of a bracketed host as an IP literal and the normalisation check, which differ between
  library versions): these further checks are the parameter \<open>netloc_ok\<close>.
\<close>

record split_result =
  scheme :: string
  netloc :: string
  url_path :: string
  query :: string
  fragment :: string

definition partition_at :: "char \<Rightarrow> string \<Rightarrow> string \<times> string" where
  \<comment> \<open>\<open>s.split(c, 1)\<close> when \<open>c\<close> occurs in \<open>s\<close>; the whole string and an empty rest otherwise\<close>
  "partition_at c s = (takeWhile (\<lambda>d. d \<noteq> c) s, drop 1 (dropWhile (\<lambda>d. d \<noteq> c) s))"

definition is_scheme_char :: "char \<Rightarrow> bool" where
  "is_scheme_char c = (is_alpha c \<or> is_digit c \<or> c = CHR ''+'' \<or> c = CHR ''-'' \<or> c = CHR ''.'')"

definition split_scheme :: "string \<Rightarrow> string \<times> string" where
  "split_scheme url =
     (let pre = takeWhile (\<lambda>d. d \<noteq> CHR '':'') url in
      if CHR '':'' \<in> set url \<and> pre \<noteq> [] \<and> is_alpha (hd pre) \<and> list_all is_scheme_char pre
      then (lower pre, drop (length pre + 1) url)
      else ([], url))"

definition splitnetloc :: "string \<Rightarrow> string \<times> string" where
  \<comment> \<open>\<open>_splitnetloc(url, 2)\<close>, given the text after the two slashes\<close>
  "splitnetloc rest =
     (let isdelim = (\<lambda>d. d = CHR ''/'' \<or> d = CHR ''?'' \<or> d = CHR ''#'')
      in (takeWhile (\<lambda>d. \<not> isdelim d) rest, dropWhile (\<lambda>d. \<not> isdelim d) rest))"

definition urlsplit :: "(string \<Rightarrow> bool) \<Rightarrow> string \<Rightarrow> error + split_result" where
  "urlsplit netloc_ok url0 =
     (let url = dropWhile (\<lambda>c. (of_char c :: nat) \<le> 32) url0;
          url = filter (\<lambda>c. (of_char c :: nat) \<notin> {9, 10, 13}) url;
          (sch, url) = split_scheme url;
          (loc, url) = (if take 2 url = ''//'' then splitnetloc (drop 2 url) else ([], url))
      in if (CHR ''['' \<in> set loc) \<noteq> (CHR '']'' \<in> set loc) \<or> \<not> netloc_ok loc
         then Inl ValueError
         else
           (let (url, frag) = partition_at CHR ''#'' url;
                (url, q) = partition_at CHR ''?'' url
            in Inr \<lparr>scheme = sch, netloc = loc, url_path = url, query = q, fragment = frag\<rparr>))"

definition basename :: "string \<Rightarrow> string" where
  \<comment> \<open>\<open>os.path.basename\<close>: what follows the last slash\<close>
  "basename p = rev (takeWhile (\<lambda>c. c \<noteq> CHR ''/'') (rev p))"

definition splitext :: "string \<Rightarrow> string \<times> string" where
  \<comment> \<open>\<open>os.path.splitext\<close> on a name without a slash: the extension starts at the last dot,
      unless only dots come before it\<close>
  "splitext p =
     (let ext = CHR ''.'' # rev (takeWhile (\<lambda>c. c \<noteq> CHR ''.'') (rev p));
          root = take (length p - length ext) p
      in if CHR ''.'' \<in> set p \<and> \<not> list_all (\<lambda>c. c = CHR ''.'') root then (root, ext)
         else (p, []))"

fun digits_of :: "nat \<Rightarrow> string" where
  "digits_of n =
     (if n < 10 then [char_of (48 + n)] else digits_of (n div 10) @ [char_of (48 + n mod 10)])"

declare digits_of.simps [simp del]

definition zfill :: "nat \<Rightarrow> string \<Rightarrow> string" where
  "zfill w s = replicate (w - length s) CHR ''0'' @ s"

definition format_03d :: "int \<Rightarrow> string" where
  \<comment> \<open>the format \<open>{index:03d}\<close>: at least three characters, the sign included\<close>
  "format_03d i =
     (if i < 0 then CHR ''-'' # zfill 2 (digits_of (nat (- i))) else zfill 3 (digits_of (nat i)))"

definition filename_from_url :: "(string \<Rightarrow> bool) \<Rightarrow> string \<Rightarrow> int \<Rightarrow> error + string" where
  "filename_from_url netloc_ok url index =
     (case urlsplit netloc_ok url of
        Inl e \<Rightarrow> Inl e
      | Inr parsed \<Rightarrow>
          (let base = basename (url_path parsed);
               base = (if base = [] then ''image'' else base);
               (name, ext) = splitext base;
               name = take 40 (sanitize_name name);
               ext = lower ext;
               ext = (if ext = [] \<or> length ext > 10 then ''.img'' else ext)
           in Inr (format_03d index @ ''_'' @ name @ ext)))"

definition decimal_value :: "string \<Rightarrow> nat" where
  \<comment> \<open>the number a string of decimal digits denotes (what \<open>int(s)\<close> reads)\<close>
  "decimal_value s = foldl (\<lambda>a c. 10 * a + (of_char c - 48)) 0 s"

section \<open>JSON values and comment ordering\<close>

text \<open>
  What \<open>json.load\<close> returns. A dictionary is an association list (\<open>d.get(k)\<close> is
  \<^const>\<open>map_of\<close>). A number is kept as a rational, which covers Python's integers and the finite floats.
\<close>

datatype jval =
    JNull
  | JBool bool
  | JNum rat
  | JStr string
  | JArr "jval list"
  | JObj "(string \<times> jval) list"

type_synonym jdict = "(string \<times> jval) list"

fun truthy :: "jval \<Rightarrow> bool" where
  \<comment> \<open>Python's truth value of a JSON value\<close>
  "truthy JNull = False"
| "truthy (JBool b) = b"
| "truthy (JNum n) = (n \<noteq> 0)"
| "truthy (JStr s) = (s \<noteq> [])"
| "truthy (JArr xs) = (xs \<noteq> [])"
| "truthy (JObj kvs) = (kvs \<noteq> [])"

definition py_or :: "jval \<Rightarrow> jval \<Rightarrow> jval" where
  \<comment> \<open>\<open>a or b\<close>\<close>
  "py_or a b = (if truthy a then a else b)"

definition dict_get :: "jdict \<Rightarrow> string \<Rightarrow> jval" where
  \<comment> \<open>\<open>d.get(k)\<close>: \<open>None\<close> when the key is missing\<close>
  "dict_get d k = (case map_of d k of None \<Rightarrow> JNull | Some v \<Rightarrow> v)"

definition endswith :: "'a list \<Rightarrow> 'a list \<Rightarrow> bool" where
  "endswith s suf = (length suf \<le> length s \<and> drop (length s - length suf) s = suf)"

definition replace_char :: "char \<Rightarrow> string \<Rightarrow> string \<Rightarrow> string" where
  \<comment> \<open>\<open>s.replace(c, new)\<close> for a one-character pattern\<close>
  "replace_char c new s = concat (map (\<lambda>d. if d = c then new else [d]) s)"

text \<open>
  \<open>parse_iso\<close>. The second component is the float timestamp; \<open>None\<close> stands for
  \<open>float("inf")\<close>. The parameter \<open>iso_ts\<close> is \<open>datetime.fromisoformat(s).timestamp()\<close>, with
  \<open>None\<close> when either call raises. A value that is true but not a string has no \<open>endswith\<close>:
  the \<open>AttributeError\<close> is caught by the same \<open>except\<close>.
\<close>

definition parse_iso :: "(string \<Rightarrow> rat option) \<Rightarrow> jval \<Rightarrow> jval \<times> rat option" where
  "parse_iso iso_ts dt =
     (if \<not> truthy dt then (JStr [], None)
      else (case dt of
              JStr s \<Rightarrow>
                (if endswith s ''Z'' then (dt, iso_ts (replace_char CHR ''Z'' ''+00:00'' s))
                 else (dt, iso_ts s))
            | _ \<Rightarrow> (dt, None)))"

definition ts_key :: "rat option \<Rightarrow> bool \<times> rat" where
  \<comment> \<open>the order of floats with infinity on top: every finite value is below \<open>inf\<close>\<close>
  "ts_key t = (case t of None \<Rightarrow> (True, 0) | Some x \<Rightarrow> (False, x))"

definition created_ts :: "(string \<Rightarrow> rat option) \<Rightarrow> jdict \<Rightarrow> rat option" where
  \<comment> \<open>\<open>parse_iso(c.get("created_at") or c.get("createdAt") or "")[1]\<close>\<close>
  "created_ts iso_ts c =
     snd (parse_iso iso_ts
            (py_or (py_or (dict_get c ''created_at'') (dict_get c ''createdAt'')) (JStr [])))"

definition sort_comments :: "(string \<Rightarrow> rat option) \<Rightarrow> jdict list \<Rightarrow> jdict list" where
  "sort_comments iso_ts comments =
     (let indexed = map (\<lambda>(idx, c). (created_ts iso_ts c, idx, c)) (enumerate 0 comments);
          indexed = sort_key (\<lambda>(ts, idx, c). (ts_key ts, idx)) indexed
      in map (\<lambda>(ts, idx, c). c) indexed)"

definition ts_le :: "rat option \<Rightarrow> rat option \<Rightarrow> bool" where
  \<comment> \<open>\<open>a <= b\<close> on floats, \<open>None\<close> being \<open>inf\<close>\<close>
  "ts_le a b = (case b of None \<Rightarrow> True | Some y \<Rightarrow> (case a of None \<Rightarrow> False | Some x \<Rightarrow> x \<le> y))"

section \<open>Downloads and the image tracker\<close>

text \<open>
  The outside world of one run. The environment \<open>env\<close> holds what the program cannot decide:
  what \<open>urlopen\<close> answers for a request, what the \<open>gh\<close> client does, whether a rename
  succeeds, and the library's checks of a network location. The program state \<open>pstate\<close> holds
  what the program changes: the files, the \<open>ImageStats\<close> object shared by all trackers of a
  repository, and the list \<open>missing\<close> of \<open>process_repo\<close> that the callbacks append to. The
  field \<open>attempts\<close> is not in the source: it records the URL of every call of
  \<open>download_image\<close>, so that download attempts can be counted.

  The host is POSIX (\<open>os.sep\<close> is the slash), directories can always be created and files
  written, and the paths of a tracker are normalised and have a common root.
\<close>

datatype response =
    Refused \<comment> \<open>\<open>urlopen\<close> raises: a network error, or \<open>HTTPError\<close> for a status that is not OK\<close>
  | Body bytes \<comment> \<open>the response is read to its end\<close>
  | Broken bytes \<comment> \<open>reading raises after these bytes were written\<close>

datatype gh_outcome =
    GhError "bytes option"
      \<comment> \<open>\<open>subprocess.run(..., check=True)\<close> raises, the command having written this output
          file or none\<close>
  | GhDone "bytes option"
      \<comment> \<open>the command ends normally, having written this output file or none\<close>

record env =
  http :: "string option \<Rightarrow> string \<Rightarrow> response"
  gh :: "string \<Rightarrow> gh_outcome"
  rename_ok :: "path \<Rightarrow> path \<Rightarrow> bool"
  netloc_ok :: "string \<Rightarrow> bool"

record ImageStats =
  attempted :: int
  downloaded :: int
  failed :: int
  missing :: "jdict list"

definition ImageStats_init :: ImageStats where
  \<comment> \<open>\<open>ImageStats.__init__\<close>\<close>
  "ImageStats_init = \<lparr>attempted = 0, downloaded = 0, failed = 0, missing = []\<rparr>"

record missing_row =
  row_repo :: string
  row_repo_slug :: string
  row_kind :: string
  row_number :: string
  row_url :: string
  row_local_path :: string
  row_md_path :: string

record pstate =
  files :: "path \<rightharpoonup> bytes"
  stats :: ImageStats
  missing_rows :: "missing_row list"
  attempts :: "string list"

type_synonym callback = "string \<Rightarrow> string \<Rightarrow> missing_row list \<Rightarrow> missing_row list"

record ImageTracker =
  assets_dir :: path
  md_dir :: path
  token :: "string option"
  missing_cb :: "callback option"
  counter :: int
  url_to_rel :: "string \<rightharpoonup> string"

definition ImageTracker_init :: "path \<Rightarrow> path \<Rightarrow> string option \<Rightarrow> callback option \<Rightarrow> ImageTracker" where
  \<comment> \<open>\<open>ImageTracker.__init__\<close>; the \<open>stats\<close> argument is the shared object in \<open>pstate\<close>\<close>
  "ImageTracker_init adir mdir tok cb =
     \<lparr>assets_dir = adir, md_dir = mdir, token = tok, missing_cb = cb, counter = 0,
      url_to_rel = Map.empty\<rparr>"

fun contains :: "'a list \<Rightarrow> 'a list \<Rightarrow> bool" where
  \<comment> \<open>\<open>sub in s\<close>\<close>
  "contains sub [] = (sub = [])"
| "contains sub (c # cs) = (startswith (c # cs) sub \<or> contains sub cs)"

definition is_attachment_url :: "split_result \<Rightarrow> bool" where
  \<comment> \<open>the test shared by \<open>_candidate_urls\<close> and \<open>_is_user_attachment\<close>\<close>
  "is_attachment_url parsed =
     (lower (netloc parsed) = ''github.com''
      \<and> startswith (url_path parsed) ''/user-attachments/assets/'')"

definition candidate_urls :: "(string \<Rightarrow> bool) \<Rightarrow> string \<Rightarrow> error + string list" where
  \<comment> \<open>\<open>_candidate_urls\<close>\<close>
  "candidate_urls ok url =
     (case urlsplit ok url of
        Inl e \<Rightarrow> Inl e
      | Inr parsed \<Rightarrow>
          if is_attachment_url parsed \<and> \<not> contains ''download=1'' (query parsed)
          then Inr [url, url @ (if query parsed \<noteq> [] then ''&'' else ''?'') @ ''download=1'']
          else Inr [url])"

definition is_user_attachment :: "(string \<Rightarrow> bool) \<Rightarrow> string \<Rightarrow> error + bool" where
  \<comment> \<open>\<open>_is_user_attachment\<close>\<close>
  "is_user_attachment ok url =
     (case urlsplit ok url of Inl e \<Rightarrow> Inl e | Inr parsed \<Rightarrow> Inr (is_attachment_url parsed))"

definition download_with_gh :: "env \<Rightarrow> pstate \<Rightarrow> string \<Rightarrow> path \<Rightarrow> bool \<times> pstate" where
  \<comment> \<open>\<open>_download_with_gh\<close>: every exception gives \<open>False\<close>; success needs a file that is
      not empty\<close>
  "download_with_gh e s url p =
     (case urlsplit (netloc_ok e) url of
        Inl _ \<Rightarrow> (False, s)
      | Inr parsed \<Rightarrow>
          (let endpoint = url_path parsed;
               endpoint = (if query parsed \<noteq> [] then endpoint @ ''?'' @ query parsed else endpoint);
               endpoint =
                 (if startswith endpoint ''/user-attachments/assets/''
                     \<and> \<not> contains ''download=1'' endpoint
                  then endpoint @ (if CHR ''?'' \<in> set endpoint then ''&'' else ''?'') @ ''download=1''
                  else endpoint);
               written = (\<lambda>out. case out of None \<Rightarrow> s | Some b \<Rightarrow> s\<lparr>files := (files s)(p \<mapsto> b)\<rparr>)
           in case gh e endpoint of
                GhError out \<Rightarrow> (False, written out)
              | GhDone out \<Rightarrow>
                  (let s' = written out
                   in (case files s' p of None \<Rightarrow> (False, s') | Some b \<Rightarrow> (b \<noteq> [], s')))))"

fun try_candidates :: "env \<Rightarrow> pstate \<Rightarrow> string option \<Rightarrow> path \<Rightarrow> string list \<Rightarrow> bool \<times> pstate" where
  \<comment> \<open>the \<open>for candidate in ...\<close> loop of \<open>download_image\<close>: the first response that is read
      to its end ends the loop with \<open>True\<close>, whatever its length\<close>
  "try_candidates e s tok p [] = (False, s)"
| "try_candidates e s tok p (c # cs) =
     (case http e tok c of
        Refused \<Rightarrow> try_candidates e s tok p cs
      | Body b \<Rightarrow> (True, s\<lparr>files := (files s)(p \<mapsto> b)\<rparr>)
      | Broken b \<Rightarrow> try_candidates e (s\<lparr>files := (files s)(p \<mapsto> b)\<rparr>) tok p cs)"

definition download_image ::
  "env \<Rightarrow> pstate \<Rightarrow> string \<Rightarrow> path \<Rightarrow> string option \<Rightarrow> error \<times> pstate + bool \<times> pstate" where
  \<comment> \<open>\<open>download_image\<close>. An exception of \<open>urlsplit\<close> leaves the call, with the state as it is
      at that point.\<close>
  "download_image e s0 url p tok =
     (let s = s0\<lparr>attempts := attempts s0 @ [url]\<rparr> in
      if files s p \<noteq> None then Inr (True, s)
      else
        (case candidate_urls (netloc_ok e) url of
           Inl err \<Rightarrow> Inl (err, s)
         | Inr cands \<Rightarrow>
             (case try_candidates e s tok p cands of
                (True, s1) \<Rightarrow> Inr (True, s1)
              | (False, s1) \<Rightarrow>
                  (case is_user_attachment (netloc_ok e) url of
                     Inl err \<Rightarrow> Inl (err, s1)
                   | Inr ua \<Rightarrow>
                       if ua then Inr (download_with_gh e s1 url p) else Inr (False, s1)))))"

definition path_suffix :: "path \<Rightarrow> string" where
  \<comment> \<open>\<open>Path.suffix\<close>: from the last dot of the final component, unless that dot is its first
      or its last character\<close>
  "path_suffix p =
     (if p = [] then []
      else (let name = last p;
                tail = rev (takeWhile (\<lambda>c. c \<noteq> CHR ''.'') (rev name));
                i = length name - length tail - 1
            in if CHR ''.'' \<in> set name \<and> 0 < i \<and> tail \<noteq> [] then CHR ''.'' # tail else []))"

definition with_suffix :: "path \<Rightarrow> string \<Rightarrow> path" where
  \<comment> \<open>\<open>Path.with_suffix\<close>\<close>
  "with_suffix p ext =
     (let name = last p in butlast p @ [take (length name - length (path_suffix p)) name @ ext])"

fun common_prefix_len :: "'a list \<Rightarrow> 'a list \<Rightarrow> nat" where
  "common_prefix_len (x # xs) (y # ys) = (if x = y then Suc (common_prefix_len xs ys) else 0)"
| "common_prefix_len _ _ = 0"

definition join_path :: "string list \<Rightarrow> string" where
  \<comment> \<open>\<open>"/".join(parts)\<close>\<close>
  "join_path parts = (case parts of [] \<Rightarrow> [] | x # xs \<Rightarrow> x @ concat (map (\<lambda>y. CHR ''/'' # y) xs))"

definition relpath :: "path \<Rightarrow> path \<Rightarrow> string" where
  \<comment> \<open>\<open>os.path.relpath(p, start).replace(os.sep, "/")\<close>\<close>
  "relpath p start =
     (let i = common_prefix_len start p;
          rel_list = replicate (length start - i) ''..'' @ drop i p
      in if rel_list = [] then ''.'' else join_path rel_list)"

definition repair_ext :: "env \<Rightarrow> pstate \<Rightarrow> path \<Rightarrow> path \<times> pstate" where
  \<comment> \<open>the block of \<open>get_local\<close> under "If extension is .img, try to detect real type and
      rename"; a rename that raises keeps the placeholder extension\<close>
  "repair_ext e s abs_path =
     (if lower (path_suffix abs_path) = ''.img'' then
        (case detect_ext_from_file (files s abs_path) of
           None \<Rightarrow> (abs_path, s)
         | Some real_ext \<Rightarrow>
             (let new_path = with_suffix abs_path real_ext in
              if rename_ok e abs_path new_path
              then (new_path,
                    s\<lparr>files := (files s)(new_path := files s abs_path, abs_path := None)\<rparr>)
              else (abs_path, s)))
      else (abs_path, s))"

definition get_local ::
  "env \<Rightarrow> ImageTracker \<Rightarrow> pstate \<Rightarrow> string
    \<Rightarrow> error \<times> ImageTracker \<times> pstate + string \<times> ImageTracker \<times> pstate" where
  \<comment> \<open>\<open>ImageTracker.get_local\<close>. A call returns (\<open>Inr\<close>) a path, or an exception leaves it
      (\<open>Inl\<close>); either way the tracker and the program state are as the call left them.
      Nothing catches the exception: it ends the run.\<close>
  "get_local e tr s url =
     (case url_to_rel tr url of
        Some rel \<Rightarrow> Inr (rel, tr, s)
      | None \<Rightarrow>
          (let tr1 = tr\<lparr>counter := counter tr + 1\<rparr>;
               s1 = s\<lparr>stats := (stats s)\<lparr>attempted := attempted (stats s) + 1\<rparr>\<rparr>
           in case filename_from_url (netloc_ok e) url (counter tr1) of
                Inl err \<Rightarrow> Inl (err, tr1, s1)
              | Inr filename \<Rightarrow>
                  (let abs_path = assets_dir tr1 @ [filename] in
                   case download_image e s1 url abs_path (token tr1) of
                     Inl (err, s2) \<Rightarrow> Inl (err, tr1, s2)
                   | Inr (ok, s2) \<Rightarrow>
                       if \<not> ok then
                         (let s3 = s2\<lparr>stats := (stats s2)\<lparr>failed := failed (stats s2) + 1\<rparr>\<rparr>;
                              rel = relpath abs_path (md_dir tr1);
                              tr2 = tr1\<lparr>url_to_rel := (url_to_rel tr1)(url \<mapsto> rel)\<rparr>;
                              s4 = (case missing_cb tr1 of
                                      None \<Rightarrow> s3
                                    | Some cb \<Rightarrow> s3\<lparr>missing_rows := cb url rel (missing_rows s3)\<rparr>)
                          in Inr (rel, tr2, s4))
                       else
                         (let (abs_path, s3) = repair_ext e s2 abs_path;
                              s4 = s3\<lparr>stats := (stats s3)\<lparr>downloaded := downloaded (stats s3) + 1\<rparr>\<rparr>;
                              rel = relpath abs_path (md_dir tr1);
                              tr2 = tr1\<lparr>url_to_rel := (url_to_rel tr1)(url \<mapsto> rel)\<rparr>
                          in Inr (rel, tr2, s4)))))"

fun get_local_all ::
  "env \<Rightarrow> ImageTracker \<Rightarrow> pstate \<Rightarrow> string list
    \<Rightarrow> error \<times> ImageTracker \<times> pstate + string list \<times> ImageTracker \<times> pstate" where
  \<comment> \<open>successive calls of \<open>get_local\<close> on one tracker, with the paths they return\<close>
  "get_local_all e tr s [] = Inr ([], tr, s)"
| "get_local_all e tr s (u # us) =
     (case get_local e tr s u of
        Inl err \<Rightarrow> Inl err
      | Inr (rel, tr1, s1) \<Rightarrow>
          (case get_local_all e tr1 s1 us of
             Inl err \<Rightarrow> Inl err
           | Inr (rels, tr2, s2) \<Rightarrow> Inr (rel # rels, tr2, s2)))"

function replace_all :: "string \<Rightarrow> string \<Rightarrow> string \<Rightarrow> string" where
  \<comment> \<open>\<open>s.replace(old, new)\<close> for a pattern \<open>old\<close> that is not empty: the occurrences are
      replaced from the left, without overlap\<close>
  "replace_all old new [] = []"
| "replace_all old new (c # cs) =
     (if old \<noteq> [] \<and> startswith (c # cs) old
      then new @ replace_all old new (drop (length old) (c # cs))
      else c # replace_all old new cs)"
  by pat_completeness auto
termination
  by (relation "measure (\<lambda>(old, new, s). length s)") (auto simp: Suc_le_eq)

function replace_first :: "string \<Rightarrow> string \<Rightarrow> string \<Rightarrow> string" where
  \<comment> \<open>\<open>s.replace(old, new, 1)\<close> for a pattern \<open>old\<close> that is not empty\<close>
  "replace_first old new [] = []"
| "replace_first old new (c # cs) =
     (if old \<noteq> [] \<and> startswith (c # cs) old
      then new @ drop (length old) (c # cs)
      else c # replace_first old new cs)"
  by pat_completeness auto
termination
  by (relation "measure (\<lambda>(old, new, s). length s)") auto

definition upper_char :: "char \<Rightarrow> char" where
  "upper_char c =
     (let n = (of_char c :: nat)
      in if is_lower c \<or> (224 \<le> n \<and> n \<le> 254 \<and> n \<noteq> 247) then char_of (n - 32) else c)"

definition upper :: "string \<Rightarrow> string" where
  \<comment> \<open>\<open>str.upper()\<close>, which the program applies to the literals \<open>issue\<close> and \<open>pr\<close>. (The
      upper-case forms of the micro sign, the sharp s and the y with diaeresis lie outside
      the characters of this theory: these three are left as they are.)\<close>
  "upper s = map upper_char s"

definition str_int :: "int \<Rightarrow> string" where
  \<comment> \<open>\<open>str(n)\<close> for an integer\<close>
  "str_int n = (if n < 0 then CHR ''-'' # digits_of (nat (- n)) else digits_of (nat n))"

definition slugify_repo :: "string \<Rightarrow> string" where
  "slugify_repo repo = replace_all ''/'' ''_'' repo"

definition make_missing_cb :: "string \<Rightarrow> string \<Rightarrow> int \<Rightarrow> callback" where
  \<comment> \<open>the closure \<open>_cb\<close> that \<open>make_missing_cb(kind, number)\<close> of \<open>process_repo\<close> returns\<close>
  "make_missing_cb repo kind number =
     (\<lambda>url rel_path rows.
        rows @ [\<lparr>row_repo = repo,
                 row_repo_slug = slugify_repo repo,
                 row_kind = kind,
                 row_number = str_int number,
                 row_url = url,
                 row_local_path = replace_all ''../'' [] rel_path,
                 row_md_path = kind @ ''s/'' @ upper kind @ ''-'' @ str_int number @ ''.md''\<rparr>])"

text \<open>
  One concrete run, at which the properties below are evaluated: the tracker of issue 5 of
  the repository \<open>o/r\<close> as \<open>process_repo\<close> builds it, before its first call, and a world in
  which every request gets the same answer, the \<open>gh\<close> client fails and a rename succeeds.
\<close>

definition example_url :: string where
  "example_url = ''https://example.com/user-attachments/assets/abc''"

definition example_world :: "response \<Rightarrow> env" where
  "example_world r =
     \<lparr>http = (\<lambda>tok u. r), gh = (\<lambda>endpoint. GhError None), rename_ok = (\<lambda>p q. True),
      netloc_ok = (\<lambda>loc. True)\<rparr>"

definition example_tracker :: ImageTracker where
  "example_tracker =
     ImageTracker_init [''export'', ''o_r'', ''assets'', ''issues'', ''5'']
       [''export'', ''o_r'', ''issues''] None (Some (make_missing_cb ''o/r'' ''issue'' 5))"

definition example_state :: pstate where
  "example_state = \<lparr>files = Map.empty, stats = ImageStats_init, missing_rows = [], attempts = []\<rparr>"

section \<open>The run over the repositories\<close>



record 'w run =
  world :: 'w
  stderr :: "string list"
  entered :: "string list"

datatype outcome =
    Returned int \<comment> \<open>\<open>main\<close> returns this status\<close>
  | Raised error \<comment> \<open>an exception leaves \<open>main\<close>\<close>








section \<open>Regular expressions\<close>

text \<open>
  The patterns of the program are values of the type \<open>re\<close>, and \<open>rmatch\<close> is the backtracking
  matcher of the \<open>re\<close> module for them. A state of the matcher is the character before the
  current position (which \<open>\b\<close> looks at), the text from the current position on, and the
  groups matched so far. \<open>rmatch r st\<close> lists the states in which a match of \<open>r\<close> from \<open>st\<close>
  can end, in the order in which the matcher tries them: an alternative tries its left
  branch first, a greedy repetition tries the longest run first and a lazy one the shortest,
  and a sequence tries, for each end of its first part in turn, the ends of its second
  part. The match that the matcher finds is the first of the list. Repetition is applied to
  single characters only, which is all the patterns need.
\<close>

datatype re =
    Lit char \<comment> \<open>a literal character\<close>
  | LitI char \<comment> \<open>a literal character under \<open>IGNORECASE\<close>\<close>
  | Cls "char \<Rightarrow> bool" \<comment> \<open>a character class\<close>
  | WordB \<comment> \<open>\<open>\b\<close>\<close>
  | Seq re re
  | Alt re re
  | Opt re \<comment> \<open>\<open>r?\<close>\<close>
  | Star "char \<Rightarrow> bool" \<comment> \<open>\<open>[...]*\<close>\<close>
  | Plus "char \<Rightarrow> bool" \<comment> \<open>\<open>[...]+\<close>\<close>
  | LazyStar "char \<Rightarrow> bool" \<comment> \<open>\<open>[...]*?\<close>\<close>
  | Grp string re \<comment> \<open>\<open>(?P<name>r)\<close>\<close>
  | Backref string \<comment> \<open>\<open>(?P=name)\<close>\<close>

type_synonym groups = "(string \<times> string) list"
type_synonym mstate = "char option \<times> string \<times> groups"

definition consume :: "nat \<Rightarrow> mstate \<Rightarrow> mstate" where
  \<comment> \<open>the state after the next \<open>k\<close> characters\<close>
  "consume k st =
     (case st of (pv, s, g) \<Rightarrow> ((if k = 0 then pv else Some (s ! (k - 1))), drop k s, g))"

definition at_word_boundary :: "char option \<Rightarrow> string \<Rightarrow> bool" where
  "at_word_boundary pv s =
     ((case pv of None \<Rightarrow> False | Some c \<Rightarrow> is_word c)
      \<noteq> (case s of [] \<Rightarrow> False | x # xs \<Rightarrow> is_word x))"

fun rmatch :: "re \<Rightarrow> mstate \<Rightarrow> mstate list" where
  "rmatch (Lit c) st =
     (case st of (pv, s, g) \<Rightarrow> if s \<noteq> [] \<and> hd s = c then [consume 1 st] else [])"
| "rmatch (LitI c) st =
     (case st of (pv, s, g) \<Rightarrow>
        if s \<noteq> [] \<and> lower_char (hd s) = lower_char c then [consume 1 st] else [])"
| "rmatch (Cls p) st =
     (case st of (pv, s, g) \<Rightarrow> if s \<noteq> [] \<and> p (hd s) then [consume 1 st] else [])"
| "rmatch WordB st = (case st of (pv, s, g) \<Rightarrow> if at_word_boundary pv s then [st] else [])"
| "rmatch (Seq a b) st = concat (map (rmatch b) (rmatch a st))"
| "rmatch (Alt a b) st = rmatch a st @ rmatch b st"
| "rmatch (Opt a) st = rmatch a st @ [st]"
| "rmatch (Star p) st =
     (case st of (pv, s, g) \<Rightarrow>
        map (\<lambda>k. consume k st) (rev [0 ..< Suc (length (takeWhile p s))]))"
| "rmatch (Plus p) st =
     (case st of (pv, s, g) \<Rightarrow>
        map (\<lambda>k. consume k st) (rev [1 ..< Suc (length (takeWhile p s))]))"
| "rmatch (LazyStar p) st =
     (case st of (pv, s, g) \<Rightarrow>
        map (\<lambda>k. consume k st) [0 ..< Suc (length (takeWhile p s))])"
| "rmatch (Grp n a) st =
     (case st of (pv, s, g) \<Rightarrow>
        map (\<lambda>(pv', s', g'). (pv', s', (n, take (length s - length s') s) # g'))
          (rmatch a st))"
| "rmatch (Backref n) st =
     (case st of (pv, s, g) \<Rightarrow>
        (case map_of g n of
           None \<Rightarrow> []
         | Some t \<Rightarrow> if startswith s t then [consume (length t) st] else []))"

fun seqs :: "re list \<Rightarrow> re" where
  \<comment> \<open>the parts of a pattern, one after the other\<close>
  "seqs [] = Opt (Cls (\<lambda>c. False))"
| "seqs [r] = r"
| "seqs (r # rs) = Seq r (seqs rs)"

definition lits :: "string \<Rightarrow> re" where
  "lits s = seqs (map Lit s)"

definition litsI :: "string \<Rightarrow> re" where
  "litsI s = seqs (map LitI s)"

definition group :: "groups \<Rightarrow> string \<Rightarrow> string option" where
  \<comment> \<open>\<open>m.group(name)\<close>: \<open>None\<close> for a group that took no part in the match\<close>
  "group g n = map_of g n"

datatype piece =
    Skip char \<comment> \<open>a character outside every match\<close>
  | Hit string groups \<comment> \<open>a match: its text \<open>m.group(0)\<close> and its groups\<close>

function scan :: "re \<Rightarrow> char option \<Rightarrow> string \<Rightarrow> piece list" where
  \<comment> \<open>the text cut into its matches, found from left to right without overlap as by
      \<open>finditer\<close>, \<open>findall\<close> and \<open>sub\<close>, and the characters between them. (A pattern of the
      program matches one character at least; an empty match counts as none here.)\<close>
  "scan r pv s =
     (case rmatch r (pv, s, []) of
        [] \<Rightarrow> (case s of [] \<Rightarrow> [] | x # xs \<Rightarrow> Skip x # scan r (Some x) xs)
      | (pv', s', g) # others \<Rightarrow>
          if length s' < length s
          then Hit (take (length s - length s') s) g # scan r pv' s'
          else (case s of [] \<Rightarrow> [] | x # xs \<Rightarrow> Skip x # scan r (Some x) xs))"
  by pat_completeness auto
termination
  by (relation "measure (\<lambda>(r, pv, s). length s)") auto

declare scan.simps [simp del]

definition piece_text :: "piece \<Rightarrow> string" where
  "piece_text p = (case p of Skip c \<Rightarrow> [c] | Hit m g \<Rightarrow> m)"

definition hits :: "piece list \<Rightarrow> (string \<times> groups) list" where
  \<comment> \<open>the matches, in the order of \<open>finditer\<close>\<close>
  "hits ps = concat (map (\<lambda>p. case p of Skip c \<Rightarrow> [] | Hit m g \<Rightarrow> [(m, g)]) ps)"

section \<open>Issues that a pull request closes\<close>

definition ISSUE_FIX_PATTERN :: re where
  \<comment> \<open>\<open>(?i)\b(?:fixe[sd]?|close[sd]?|resolve[sd]?)\s+(?:(?P<owner>[\w.-]+)/(?P<repo>[\w.-]+))?#(?P<num>\d+)\<close>\<close>
  "ISSUE_FIX_PATTERN =
     (let sd = Opt (Cls (\<lambda>c. lower_char c = CHR ''s'' \<or> lower_char c = CHR ''d''));
          name = (\<lambda>c. is_word c \<or> c = CHR ''.'' \<or> c = CHR ''-'')
      in seqs [WordB,
               Alt (Seq (litsI ''fixe'') sd) (Alt (Seq (litsI ''close'') sd) (Seq (litsI ''resolve'') sd)),
               Plus is_space,
               Opt (seqs [Grp ''owner'' (Plus name), LitI CHR ''/'', Grp ''repo'' (Plus name)]),
               LitI CHR ''#'',
               Grp ''num'' (Plus is_digit)])"

definition related_issue :: "int set \<Rightarrow> string \<Rightarrow> string \<Rightarrow> string \<times> groups \<Rightarrow> int list" where
  \<comment> \<open>the body of the loop of \<open>find_related_issues\<close> for one match: the number it adds to
      \<open>related\<close>, if any\<close>
  "related_issue issue_numbers owner repo m =
     (let g = snd m;
          num = int (decimal_value (case group g ''num'' of None \<Rightarrow> [] | Some t \<Rightarrow> t));
          m_owner = (case group g ''owner'' of None \<Rightarrow> [] | Some t \<Rightarrow> t);
          m_repo = (case group g ''repo'' of None \<Rightarrow> [] | Some t \<Rightarrow> t)
      in if m_owner \<noteq> [] \<and> m_repo \<noteq> [] \<and> (lower m_owner \<noteq> lower owner \<or> lower m_repo \<noteq> lower repo)
         then []
         else if num \<in> issue_numbers then [num] else [])"

definition find_related_issues :: "string \<Rightarrow> int set \<Rightarrow> string \<Rightarrow> string \<Rightarrow> int list" where
  \<comment> \<open>\<open>sorted(related)\<close> lists the numbers of the set in increasing order\<close>
  "find_related_issues pr_body issue_numbers owner repo =
     (if pr_body = [] then []
      else sort (remdups (concat (map (related_issue issue_numbers owner repo)
                                      (hits (scan ISSUE_FIX_PATTERN None pr_body))))))"

section \<open>Image references in a text\<close>

definition IMG_PATTERN :: re where
  \<comment> \<open>with \<open>IGNORECASE\<close> and \<open>DOTALL\<close>, the alternative
      \<open>!\[[^\]]*\]\(\s*(?P<md_url>[^)\s]+)(?:\s+["'][^"']*["'])?\s*\)\<close> and the alternative
      \<open><img\b[^>]*?\bsrc=(?:(?P<html_q>["'])(?P<html_url>.*?)(?P=html_q)|(?P<html_url_unq>[^>\s]+))[^>]*?>\<close>\<close>
  "IMG_PATTERN =
     (let quote = (\<lambda>c. c = CHR 0x22 \<or> c = CHR 0x27)
      in Alt
           (seqs [LitI CHR ''!'', LitI CHR ''['', Star (\<lambda>c. c \<noteq> CHR '']''), LitI CHR '']'',
                  LitI CHR ''('', Star is_space,
                  Grp ''md_url'' (Plus (\<lambda>c. c \<noteq> CHR '')'' \<and> \<not> is_space c)),
                  Opt (seqs [Plus is_space, Cls quote, Star (\<lambda>c. \<not> quote c), Cls quote]),
                  Star is_space, LitI CHR '')''])
           (seqs [litsI ''<img'', WordB, LazyStar (\<lambda>c. c \<noteq> CHR ''>''), WordB, litsI ''src='',
                  Alt (seqs [Grp ''html_q'' (Cls quote), Grp ''html_url'' (LazyStar (\<lambda>c. True)),
                             Backref ''html_q''])
                      (Grp ''html_url_unq'' (Plus (\<lambda>c. c \<noteq> CHR ''>'' \<and> \<not> is_space c))),
                  LazyStar (\<lambda>c. c \<noteq> CHR ''>''), LitI CHR ''>'']))"

definition or_group :: "string option \<Rightarrow> string option \<Rightarrow> string option" where
  \<comment> \<open>\<open>a or b\<close> for two results of \<open>m.group\<close>: \<open>None\<close> and the empty text are false\<close>
  "or_group a b = (case a of None \<Rightarrow> b | Some t \<Rightarrow> if t = [] then b else a)"

definition match_url :: "groups \<Rightarrow> string" where
  \<comment> \<open>the \<open>url\<close> of \<open>repl\<close>; the empty text stands for every value that \<open>not url\<close> accepts\<close>
  "match_url g =
     (case or_group (group g ''md_url'') (or_group (group g ''html_url'') (group g ''html_url_unq'')) of
        None \<Rightarrow> []
      | Some url \<Rightarrow> url)"

definition repl ::
  "env \<Rightarrow> ImageTracker \<Rightarrow> pstate \<Rightarrow> string \<times> groups
    \<Rightarrow> error \<times> ImageTracker \<times> pstate + string \<times> ImageTracker \<times> pstate" where
  \<comment> \<open>the function \<open>repl\<close> of \<open>replace_images\<close>, applied to a match \<open>(m.group(0), groups)\<close>\<close>
  "repl e tr s m =
     (let url = match_url (snd m)
      in if url = [] then Inr (fst m, tr, s)
         else if startswith url ''data:'' then Inr (fst m, tr, s)
         else if \<not> startswith url ''http://'' \<and> \<not> startswith url ''https://''
         then Inr (fst m, tr, s)
         else
           (case get_local e tr s url of
              Inl x \<Rightarrow> Inl x
            | Inr (local, tr', s') \<Rightarrow> Inr (replace_first url local (fst m), tr', s')))"

fun sub ::
  "env \<Rightarrow> ImageTracker \<Rightarrow> pstate \<Rightarrow> piece list
    \<Rightarrow> error \<times> ImageTracker \<times> pstate + string \<times> ImageTracker \<times> pstate" where
  \<comment> \<open>\<open>IMG_PATTERN.sub(repl, text)\<close> on the pieces of the text: \<open>repl\<close> is called for the
      matches from left to right, and the characters between them are copied\<close>
  "sub e tr s [] = Inr ([], tr, s)"
| "sub e tr s (Skip c # ps) =
     (case sub e tr s ps of
        Inl x \<Rightarrow> Inl x
      | Inr (out, tr', s') \<Rightarrow> Inr (c # out, tr', s'))"
| "sub e tr s (Hit m g # ps) =
     (case repl e tr s (m, g) of
        Inl x \<Rightarrow> Inl x
      | Inr (t, tr1, s1) \<Rightarrow>
          (case sub e tr1 s1 ps of
             Inl x \<Rightarrow> Inl x
           | Inr (out, tr', s') \<Rightarrow> Inr (t @ out, tr', s')))"

definition replace_images ::
  "env \<Rightarrow> ImageTracker \<Rightarrow> pstate \<Rightarrow> string
    \<Rightarrow> error \<times> ImageTracker \<times> pstate + string \<times> ImageTracker \<times> pstate" where
  "replace_images e tr s text =
     (if text = [] then Inr ([], tr, s) else sub e tr s (scan IMG_PATTERN None text))"

definition excluded_url :: "string \<Rightarrow> bool" where
  \<comment> \<open>the URLs that are not to be rewritten: those that begin with \<open>data:\<close> and those that
      begin with neither \<open>http://\<close> nor \<open>https://\<close>\<close>
  "excluded_url url =
     (startswith url ''data:'' \<or> (\<not> startswith url ''http://'' \<and> \<not> startswith url ''https://''))"

definition kept :: "piece \<Rightarrow> bool" where
  \<comment> \<open>the pieces of a text that are to stay as they are: what lies outside the matches, and
      the matches with an excluded URL\<close>
  "kept p = (case p of Skip c \<Rightarrow> True | Hit m g \<Rightarrow> excluded_url (match_url g))"

definition example_text :: string where
  \<comment> \<open>an inline image, and two references that are relative already\<close>
  "example_text =
     ''a ![x](data:image/png;base64,AA==) <img src=pic.png> <IMG SRC='' @ [CHR 0x22]
     @ ''../p.png'' @ [CHR 0x22] @ ''> b''"

definition example_mixed :: string where
  "example_mixed = ''![a](https://example.com/user-attachments/assets/abc) ![b](data:x)''"

section \<open>The clean-up of placeholder extensions\<close>

text \<open>
  The script \<open>cleanup_img_ext.py\<close>. The file system is a list of entries: an absolute path,
  given by its components, and what is there. The directories above an entry exist as well.
  The order of the list is the order in which the scan of a directory yields its entries.
  There are no symbolic links, and the files can be read and written. The export root is
  given by its absolute path. What the script prints is left out.
\<close>

datatype node = File bytes | Dir

type_synonym tree = "(path \<times> node) list"

record cleanup_env =
  rename_raises :: "path \<Rightarrow> path \<Rightarrow> bool"
  decode :: "bytes \<Rightarrow> string"
  encode :: "string \<Rightarrow> bytes"
  set_order :: "path \<Rightarrow> string \<Rightarrow> nat"

text \<open>
  \<open>rename_raises\<close> says when \<open>img.rename\<close> raises for a reason outside this model;
  \<open>decode\<close> is \<open>read_text(encoding="utf-8", errors="replace")\<close> and \<open>encode\<close> is what
  \<open>write_text(..., encoding="utf-8")\<close> writes; and the set of the references of a Markdown
  file is iterated in the order of increasing \<open>set_order\<close>, which may be any order.
\<close>

definition path_exists :: "tree \<Rightarrow> path \<Rightarrow> bool" where
  \<comment> \<open>\<open>Path.exists\<close>: an entry, or a directory above one\<close>
  "path_exists fs p = (p = [] \<or> list_ex (\<lambda>(q, n). startswith q p) fs)"

definition read_bytes :: "tree \<Rightarrow> path \<Rightarrow> bytes option" where
  \<comment> \<open>\<open>Path.read_bytes\<close>; \<open>None\<close> when it raises\<close>
  "read_bytes fs p = (case map_of fs p of Some (File b) \<Rightarrow> Some b | _ \<Rightarrow> None)"

definition is_file :: "tree \<Rightarrow> path \<Rightarrow> bool" where
  "is_file fs p = (read_bytes fs p \<noteq> None)"

definition below :: "tree \<Rightarrow> path \<Rightarrow> path list" where
  \<comment> \<open>everything below a directory: the entries and the directories above them\<close>
  "below fs export_root =
     remdups (concat (map (\<lambda>(q, n). if startswith q export_root
                                      then map (\<lambda>k. take k q) [Suc (length export_root) ..< Suc (length q)]
                                      else []) fs))"

definition rglob :: "tree \<Rightarrow> path \<Rightarrow> string \<Rightarrow> path list" where
  \<comment> \<open>\<open>root.rglob("*" + suffix)\<close>\<close>
  "rglob fs export_root suffix = filter (\<lambda>p. endswith (last p) suffix) (below fs export_root)"

definition rename_file :: "tree \<Rightarrow> path \<Rightarrow> path \<Rightarrow> tree" where
  \<comment> \<open>\<open>os.rename\<close> of a file: a file at the target is replaced\<close>
  "rename_file fs a b =
     map (\<lambda>(q, n). if q = a then (b, n) else (q, n)) (filter (\<lambda>(q, n). q \<noteq> b) fs)"

definition write_file :: "tree \<Rightarrow> path \<Rightarrow> bytes \<Rightarrow> tree" where
  "write_file fs p b = map (\<lambda>(q, n). if q = p then (q, File b) else (q, n)) fs"

fun dict_set :: "('k \<times> 'v) list \<Rightarrow> 'k \<Rightarrow> 'v \<Rightarrow> ('k \<times> 'v) list" where
  \<comment> \<open>\<open>d[k] = v\<close>: a new key comes last\<close>
  "dict_set [] k v = [(k, v)]"
| "dict_set (p # ps) k v = (if fst p = k then (k, v) # ps else p # dict_set ps k v)"

definition rename_img ::
  "cleanup_env \<Rightarrow> path \<Rightarrow> path \<Rightarrow> tree \<times> (string \<times> string) list
    \<Rightarrow> tree \<times> (string \<times> string) list" where
  \<comment> \<open>the body of the loop \<open>for img in root.rglob("*.img")\<close>; a rename onto a directory
      raises\<close>
  "rename_img e export_root img acc =
     (case acc of (fs, rewrites) \<Rightarrow>
        (case detect_ext (read_bytes fs img) of
           None \<Rightarrow> acc
         | Some ext \<Rightarrow>
             (let new_path = with_suffix img ext
              in if rename_raises e img new_path
                    \<or> (path_exists fs new_path \<and> \<not> is_file fs new_path)
                 then acc
                 else (rename_file fs img new_path,
                       dict_set rewrites (relpath img export_root) (relpath new_path export_root)))))"

definition apply_rewrites :: "(string \<times> string) list \<Rightarrow> string \<Rightarrow> string" where
  \<comment> \<open>the loop \<open>for old_rel, new_rel in rewrites.items()\<close>\<close>
  "apply_rewrites rewrites text =
     fold (\<lambda>(old_rel, new_rel) updated.
             replace_all (''./'' @ old_rel) (''./'' @ new_rel)
               (replace_all (''../'' @ old_rel) (''../'' @ new_rel)
                  (replace_all old_rel new_rel updated)))
       rewrites text"

definition img_ref_pattern :: re where
  \<comment> \<open>\<open>(?P<path>(?:\.\./|\./)?[^\s"'<>]+\.img)\<close>\<close>
  "img_ref_pattern =
     Grp ''path''
       (seqs [Opt (Alt (lits ''../'') (lits ''./'')),
              Plus (\<lambda>c. \<not> is_space c \<and> c \<noteq> CHR 0x22 \<and> c \<noteq> CHR 0x27 \<and> c \<noteq> CHR ''<''
                         \<and> c \<noteq> CHR ''>''),
              lits ''.img''])"

definition findall :: "re \<Rightarrow> string \<Rightarrow> string \<Rightarrow> string list" where
  \<comment> \<open>\<open>pattern.findall(text)\<close> for a pattern with the one group \<open>n\<close>\<close>
  "findall r n text =
     map (\<lambda>(m, g). case group g n of None \<Rightarrow> [] | Some t \<Rightarrow> t) (hits (scan r None text))"

fun split_char :: "char \<Rightarrow> string \<Rightarrow> string list" where
  \<comment> \<open>\<open>s.split(c)\<close>\<close>
  "split_char c [] = [[]]"
| "split_char c (x # xs) =
     (if x = c then [] # split_char c xs
      else (case split_char c xs of [] \<Rightarrow> [[x]] | y # ys \<Rightarrow> (x # y) # ys))"

definition parts :: "string \<Rightarrow> string list" where
  \<comment> \<open>the components of \<open>Path(s)\<close>: empty ones and single dots are dropped\<close>
  "parts s = filter (\<lambda>p. p \<noteq> [] \<and> p \<noteq> ''.'') (split_char CHR ''/'' s)"

definition resolve :: "path \<Rightarrow> string \<Rightarrow> path" where
  \<comment> \<open>\<open>(dir / rel).resolve()\<close> for a resolved directory: an absolute \<open>rel\<close> replaces \<open>dir\<close>,
      and \<open>..\<close> steps up, staying at the export_root\<close>
  "resolve dir rel =
     fold (\<lambda>c p. if c = ''..'' then butlast p else p @ [c]) (parts rel)
       (if startswith rel ''/'' then [] else dir)"

definition ext_candidates :: "string list" where
  "ext_candidates = [''.png'', ''.jpg'', ''.jpeg'', ''.gif'', ''.webp'']"

definition with_name_str :: "string \<Rightarrow> string \<Rightarrow> string" where
  \<comment> \<open>\<open>str(Path(rel).with_name(name))\<close> for a path with a final component: a path keeps
      one leading slash, or two when it begins with exactly two\<close>
  "with_name_str rel name =
     (let anchor = (if startswith rel ''//'' \<and> \<not> startswith rel ''///'' then ''//''
                    else if startswith rel ''/'' then ''/'' else [])
      in anchor @ join_path (butlast (parts rel) @ [name]))"

definition resolve_ref :: "tree \<Rightarrow> path \<Rightarrow> string \<Rightarrow> string option" where
  \<comment> \<open>what the body of the loop \<open>for rel_path in matches\<close> replaces \<open>rel_path\<close> by, if it
      replaces it: first a path with the same stem and one of the extensions, then the first
      file of the same directory with the same prefix and one of the extensions\<close>
  "resolve_ref fs md rel_path =
     (let candidate_base = resolve (butlast md) rel_path
      in case find (\<lambda>ext. path_exists fs (with_suffix candidate_base ext)) ext_candidates of
           Some ext \<Rightarrow> Some (take (length rel_path - 4) rel_path @ ext)
         | None \<Rightarrow>
             (let prefix = takeWhile (\<lambda>c. c \<noteq> CHR ''_'') (last candidate_base) @ ''_'';
                  dir_path = butlast candidate_base
              in case find (\<lambda>(q, n). q \<noteq> [] \<and> butlast q = dir_path \<and> n \<noteq> Dir
                                      \<and> startswith (last q) prefix
                                      \<and> lower (path_suffix q) \<in> set ext_candidates) fs of
                   None \<Rightarrow> None
                 | Some (q, n) \<Rightarrow>
                     Some (replace_char CHR 0x5C ''/'' (with_name_str rel_path (last q)))))"

fun fix_refs :: "tree \<Rightarrow> path \<Rightarrow> string list \<Rightarrow> string \<Rightarrow> error + string" where
  \<comment> \<open>the loop \<open>for rel_path in matches\<close>; \<open>resolve()\<close> raises \<open>ValueError\<close> for a path that
      holds a null character\<close>
  "fix_refs fs md [] updated = Inr updated"
| "fix_refs fs md (rel_path # rest) updated =
     (if CHR 0x00 \<in> set rel_path then Inl ValueError
      else fix_refs fs md rest
             (case resolve_ref fs md rel_path of
                None \<Rightarrow> updated
              | Some new_rel \<Rightarrow> replace_all rel_path new_rel updated))"

definition md_text :: "cleanup_env \<Rightarrow> tree \<Rightarrow> path \<Rightarrow> string" where
  \<comment> \<open>the text of a Markdown file, as the script reads it\<close>
  "md_text e fs md = (case read_bytes fs md of None \<Rightarrow> [] | Some b \<Rightarrow> decode e b)"

definition update_md ::
  "cleanup_env \<Rightarrow> (string \<times> string) list \<Rightarrow> tree \<Rightarrow> path \<Rightarrow> error + tree" where
  \<comment> \<open>the body of the loop \<open>for md in md_files\<close>; \<open>read_text\<close> raises for a directory\<close>
  "update_md e rewrites fs md =
     (if \<not> is_file fs md then Inl OtherError
      else
        (let text = md_text e fs md;
             updated = apply_rewrites rewrites text;
             matches = sort_key (set_order e md) (remdups (findall img_ref_pattern ''path'' updated))
         in case fix_refs fs md matches updated of
              Inl err \<Rightarrow> Inl err
            | Inr updated \<Rightarrow>
                Inr (if updated \<noteq> text then write_file fs md (encode e updated) else fs)))"

fun update_mds ::
  "cleanup_env \<Rightarrow> (string \<times> string) list \<Rightarrow> tree \<Rightarrow> path list \<Rightarrow> outcome \<times> tree" where
  "update_mds e rewrites fs [] = (Returned 0, fs)"
| "update_mds e rewrites fs (md # mds) =
     (case update_md e rewrites fs md of
        Inl err \<Rightarrow> (Raised err, fs)
      | Inr fs' \<Rightarrow> update_mds e rewrites fs' mds)"

definition cleanup_main :: "cleanup_env \<Rightarrow> tree \<Rightarrow> path \<Rightarrow> outcome \<times> tree" where
  \<comment> \<open>\<open>main\<close> of \<open>cleanup_img_ext.py\<close>\<close>
  "cleanup_main e fs export_root =
     (if \<not> path_exists fs export_root then (Returned 1, fs)
      else
        (case fold (rename_img e export_root) (rglob fs export_root ''.img'') (fs, []) of
           (fs1, rewrites) \<Rightarrow> update_mds e rewrites fs1 (rglob fs1 export_root ''.md'')))"

text \<open>
  An export for the examples: the Markdown file of issue 5, which refers to two images by
  their placeholder names, and one image that was given its real extension before.
\<close>

definition ascii_bytes :: "string \<Rightarrow> bytes" where
  "ascii_bytes s = map (\<lambda>c. of_nat (of_char c)) s"

definition example_codec :: cleanup_env where
  "example_codec =
     \<lparr>rename_raises = (\<lambda>p q. False), decode = map (\<lambda>b. char_of (unat b)),
      encode = ascii_bytes, set_order = (\<lambda>md r. 0)\<rparr>"

definition example_md :: path where
  "example_md = [''export'', ''o_r'', ''issues'', ''ISSUE-5.md'']"

definition example_tree :: "string \<Rightarrow> tree" where
  "example_tree text =
     [(example_md, File (ascii_bytes text)),
      ([''export'', ''o_r'', ''assets'', ''issues'', ''5'', ''001_a.png''], File PNG_SIG)]"

definition example_ref :: "string \<Rightarrow> string" where
  \<comment> \<open>an image tag with this source\<close>
  "example_ref src = ''<img src='' @ [CHR 0x22] @ src @ [CHR 0x22] @ ''>''"

section \<open>Properties of the extension sniffer\<close>

lemma detect_ext_same: "detect_ext rd = detect_ext_from_file rd"
  by (simp add: detect_ext_def detect_ext_from_file_def)

lemma startswith_take12:
  "length pre \<le> 12 \<Longrightarrow> startswith (take 12 content) pre = startswith content pre"
  by (simp add: startswith_def min_def)

lemma sig_lengths:
  "length PNG_SIG = 8" "length JPEG_SIG = 3" "length GIF87a = 6" "length GIF89a = 6"
  "length RIFF = 4" "length WEBP = 4"
  by (simp_all add: PNG_SIG_def JPEG_SIG_def GIF87a_def GIF89a_def RIFF_def WEBP_def)

lemma webp_take12:
  "(length (take 12 content) \<ge> 12 \<and> py_slice 0 4 (take 12 content) = RIFF
      \<and> py_slice 8 12 (take 12 content) = WEBP)
   = (take 4 content = RIFF \<and> take 4 (drop 8 content) = WEBP)"
proof -
  have a: "take 4 (take 12 content) = take 4 content" by simp
  have b: "take 4 (drop 8 (take 12 content)) = take 4 (drop 8 content)"
    by (simp add: drop_take)
  have c: "take 4 (drop 8 content) = WEBP \<Longrightarrow> 12 \<le> length content"
  proof -
    assume h: "take 4 (drop 8 content) = WEBP"
    have "length (take 4 (drop 8 content)) = 4" using h by (simp add: sig_lengths)
    then show ?thesis by simp
  qed
  show ?thesis using c by (auto simp: py_slice_def a b)
qed

lemma sig_exclusive:
  "startswith d PNG_SIG \<Longrightarrow> \<not> startswith d JPEG_SIG"
  "startswith d PNG_SIG \<Longrightarrow> \<not> startswith d GIF87a"
  "startswith d PNG_SIG \<Longrightarrow> \<not> startswith d GIF89a"
  "startswith d PNG_SIG \<Longrightarrow> \<not> take 4 d = RIFF"
  "startswith d JPEG_SIG \<Longrightarrow> \<not> startswith d GIF87a"
  "startswith d JPEG_SIG \<Longrightarrow> \<not> startswith d GIF89a"
  "startswith d JPEG_SIG \<Longrightarrow> \<not> take 4 d = RIFF"
  "startswith d GIF87a \<Longrightarrow> \<not> take 4 d = RIFF"
  "startswith d GIF89a \<Longrightarrow> \<not> take 4 d = RIFF"
  by (cases d; simp add: startswith_def PNG_SIG_def JPEG_SIG_def GIF87a_def GIF89a_def RIFF_def)+

text \<open>
  Claim C5. For every byte sequence the sniffer answers PNG exactly when the input starts with
  the 8-byte signature 89 50 4E 47 0D 0A 1A 0A, JPEG exactly when it starts with FF D8 FF, GIF
  exactly when it starts with \<open>GIF87a\<close> or \<open>GIF89a\<close>, WEBP exactly when bytes 0-3 are \<open>RIFF\<close> and
  bytes 8-11 are \<open>WEBP\<close>; every other input, truncated and empty input included, gives the
  unknown result \<open>None\<close>; the answer is a function of the first twelve bytes alone, and the
  copy in the cleanup script computes the same function.
\<close>

theorem detect_ext_from_file_magic:
  "(detect_ext_from_file (Some data) = Some ''.png'' \<longleftrightarrow> startswith data PNG_SIG)
   \<and> (detect_ext_from_file (Some data) = Some ''.jpg'' \<longleftrightarrow> startswith data JPEG_SIG)
   \<and> (detect_ext_from_file (Some data) = Some ''.gif''
        \<longleftrightarrow> startswith data GIF87a \<or> startswith data GIF89a)
   \<and> (detect_ext_from_file (Some data) = Some ''.webp''
        \<longleftrightarrow> take 4 data = RIFF \<and> take 4 (drop 8 data) = WEBP)
   \<and> (detect_ext_from_file (Some data) = None
        \<longleftrightarrow> \<not> (startswith data PNG_SIG \<or> startswith data JPEG_SIG \<or> startswith data GIF87a
               \<or> startswith data GIF89a \<or> (take 4 data = RIFF \<and> take 4 (drop 8 data) = WEBP)))
   \<and> detect_ext_from_file (Some []) = None
   \<and> detect_ext_from_file (Some (take 12 data)) = detect_ext_from_file (Some data)
   \<and> detect_ext (Some data) = detect_ext_from_file (Some data)"
proof -
  have d: "detect_ext_from_file (Some data) =
      (if startswith data PNG_SIG then Some ''.png''
       else if startswith data JPEG_SIG then Some ''.jpg''
       else if startswith data GIF87a \<or> startswith data GIF89a then Some ''.gif''
       else if take 4 data = RIFF \<and> take 4 (drop 8 data) = WEBP then Some ''.webp''
       else None)"
    unfolding detect_ext_from_file_def
    apply (simp only: option.case Let_def webp_take12)
    apply (simp add: startswith_take12 sig_lengths)
    done
  have e: "detect_ext_from_file (Some []) = None"
    by (simp add: detect_ext_from_file_def startswith_def py_slice_def PNG_SIG_def JPEG_SIG_def
        GIF87a_def GIF89a_def)
  have t: "detect_ext_from_file (Some (take 12 data)) = detect_ext_from_file (Some data)"
    by (simp add: detect_ext_from_file_def)
  show ?thesis
    using sig_exclusive [of data] by (auto simp: d e t detect_ext_same)
qed

section \<open>Properties of the file names\<close>

lemma decimal_value_snoc: "decimal_value (s @ [c]) = 10 * decimal_value s + (of_char c - 48)"
  by (simp add: decimal_value_def)

lemma is_digit_char_of: "(n::nat) < 10 \<Longrightarrow> is_digit (char_of (48 + n))"
  by (simp add: is_digit_def Let_def)

lemma digit_value_char_of: "(n::nat) < 10 \<Longrightarrow> (of_char (char_of (48 + n)) :: nat) - 48 = n"
  by simp

lemma digits_of_digits: "list_all is_digit (digits_of n)"
proof (induction n rule: digits_of.induct)
  case (1 n)
  show ?case
  proof (cases "n < 10")
    case True
    then show ?thesis by (subst digits_of.simps) (simp add: is_digit_char_of)
  next
    case False
    then have "list_all is_digit (digits_of (n div 10))" using 1 by simp
    moreover have "is_digit (char_of (48 + n mod 10))" by (rule is_digit_char_of) simp
    ultimately show ?thesis using False by (subst digits_of.simps) simp
  qed
qed

lemma digits_of_nonempty: "digits_of n \<noteq> []"
  by (subst digits_of.simps) simp

lemma decimal_value_digits_of: "decimal_value (digits_of n) = n"
proof (induction n rule: digits_of.induct)
  case (1 n)
  show ?case
  proof (cases "n < 10")
    case True
    then show ?thesis
      by (subst digits_of.simps) (simp add: decimal_value_def)
  next
    case False
    then have ih: "decimal_value (digits_of (n div 10)) = n div 10" using 1 by simp
    have d: "(of_char (char_of (48 + n mod 10)) :: nat) - 48 = n mod 10"
      by (rule digit_value_char_of) simp
    show ?thesis using False
      by (subst digits_of.simps) (simp add: decimal_value_snoc ih d del: of_char_of)
  qed
qed

lemma decimal_value_zeros: "decimal_value (replicate k CHR ''0'' @ s) = decimal_value s"
proof -
  have "foldl (\<lambda>a c. 10 * a + (of_char c - 48)) (0::nat) (replicate k CHR ''0'') = 0"
    by (induction k) simp_all
  then show ?thesis by (simp add: decimal_value_def)
qed

lemma length_digits_of_le3: "length (digits_of n) \<le> 3 \<longleftrightarrow> n < 1000"
proof -
  have a: "\<And>m. length (digits_of m) \<le> Suc 0 \<longleftrightarrow> m < 10"
    by (subst digits_of.simps) (simp add: digits_of_nonempty Suc_le_eq)
  have b: "\<And>m. length (digits_of m) \<le> 2 \<longleftrightarrow> m < 100"
    by (subst digits_of.simps) (auto simp: a)
  show ?thesis
    by (subst digits_of.simps) (auto simp: b)
qed

lemma format_03d_nonneg:
  assumes "0 \<le> i"
  shows "list_all is_digit (format_03d i)"
    and "decimal_value (format_03d i) = nat i"
    and "3 \<le> length (format_03d i)"
    and "length (format_03d i) = 3 \<longleftrightarrow> i < 1000"
proof -
  have f: "format_03d i = replicate (3 - length (digits_of (nat i))) CHR ''0'' @ digits_of (nat i)"
    using assms by (simp add: format_03d_def zfill_def)
  have z: "is_digit CHR ''0''" by (simp add: is_digit_def)
  have "list_all is_digit (replicate k CHR ''0'')" for k
    by (induction k) (simp_all add: z)
  then show "list_all is_digit (format_03d i)"
    by (simp add: f digits_of_digits)
  show "decimal_value (format_03d i) = nat i"
    by (simp only: f decimal_value_zeros decimal_value_digits_of)
  show "3 \<le> length (format_03d i)" by (simp add: f)
  have "length (format_03d i) = 3 \<longleftrightarrow> length (digits_of (nat i)) \<le> 3"
    by (auto simp: f)
  then show "length (format_03d i) = 3 \<longleftrightarrow> i < 1000"
    using assms by (auto simp: length_digits_of_le3)
qed

lemma collapse_unsafe_safe: "list_all is_safe (collapse_unsafe s)"
  by (induction s rule: collapse_unsafe.induct) (auto simp: is_safe_def)

lemma strip_chars_all: "list_all q s \<Longrightarrow> list_all q (strip_chars p s)"
proof -
  assume a: "list_all q s"
  have "x \<in> set s" if "x \<in> set (strip_chars p s)" for x
  proof -
    from that have "x \<in> set (dropWhile p (rev (dropWhile p s)))"
      by (simp add: strip_chars_def)
    then have "x \<in> set (rev (dropWhile p s))" by (rule set_dropWhileD)
    then have "x \<in> set (dropWhile p s)" by simp
    then show ?thesis by (rule set_dropWhileD)
  qed
  then show ?thesis using a by (auto simp: list_all_iff)
qed

lemma sanitize_name_safe: "list_all is_safe (sanitize_name n)"
  by (simp add: sanitize_name_def Let_def strip_chars_all collapse_unsafe_safe)
    (simp add: is_safe_def is_alpha_def is_lower_def is_upper_def)

lemma sanitize_name_nonempty: "sanitize_name n \<noteq> []"
  by (simp add: sanitize_name_def Let_def)

lemma collapse_unsafe_id: "list_all is_safe s \<Longrightarrow> collapse_unsafe s = s"
  by (induction s) auto

lemma strip_chars_id: "s \<noteq> [] \<Longrightarrow> \<not> p (hd s) \<Longrightarrow> \<not> p (last s) \<Longrightarrow> strip_chars p s = s"
proof -
  assume a: "s \<noteq> []" "\<not> p (hd s)" "\<not> p (last s)"
  have 1: "dropWhile p s = s" using a by (simp add: dropWhile_eq_self_iff)
  have 2: "dropWhile p (rev s) = rev s" using a by (simp add: dropWhile_eq_self_iff hd_rev)
  show ?thesis by (simp add: strip_chars_def 1 2)
qed

lemma basename_split:
  "\<exists>dir. p = dir @ basename p \<and> (dir = [] \<or> last dir = CHR ''/'')"
proof -
  let ?P = "\<lambda>c. c \<noteq> CHR ''/''"
  let ?d = "rev (dropWhile ?P (rev p))"
  have "rev (rev p) = rev (takeWhile ?P (rev p) @ dropWhile ?P (rev p))"
    by (simp only: takeWhile_dropWhile_id)
  then have "p = rev (dropWhile ?P (rev p)) @ rev (takeWhile ?P (rev p))"
    by (simp only: rev_rev_ident rev_append)
  then have 1: "p = ?d @ basename p" by (simp only: basename_def)
  have 2: "?d = [] \<or> last ?d = CHR ''/''"
  proof (cases "dropWhile ?P (rev p)")
    case Nil
    then show ?thesis by simp
  next
    case (Cons a as)
    then have "\<not> ?P a" using hd_dropWhile [of ?P "rev p"] by auto
    then show ?thesis using Cons by simp
  qed
  from 1 2 show ?thesis by blast
qed

lemma basename_no_slash: "CHR ''/'' \<notin> set (basename p)"
proof
  assume "CHR ''/'' \<in> set (basename p)"
  then have "CHR ''/'' \<in> set (takeWhile (\<lambda>c. c \<noteq> CHR ''/'') (rev p))"
    by (simp add: basename_def)
  then show False by (auto dest: set_takeWhileD)
qed

lemma splitext_nodot: "CHR ''.'' \<notin> set b \<Longrightarrow> splitext b = (b, [])"
  by (simp add: splitext_def Let_def)

lemma splitext_dot:
  assumes "CHR ''.'' \<notin> set zs"
  shows "splitext (ys @ CHR ''.'' # zs) =
         (if list_all (\<lambda>c. c = CHR ''.'') ys then (ys @ CHR ''.'' # zs, [])
          else (ys, CHR ''.'' # zs))"
proof -
  have "takeWhile (\<lambda>c. c \<noteq> CHR ''.'') (rev zs @ CHR ''.'' # rev ys)
        = rev zs @ takeWhile (\<lambda>c. c \<noteq> CHR ''.'') (CHR ''.'' # rev ys)"
    using assms by (intro takeWhile_append2) auto
  then have "takeWhile (\<lambda>c. c \<noteq> CHR ''.'') (rev zs @ CHR ''.'' # rev ys) = rev zs"
    by simp
  then have t: "rev (takeWhile (\<lambda>c. c \<noteq> CHR ''.'') (rev (ys @ CHR ''.'' # zs))) = zs"
    by simp
  show ?thesis
    unfolding splitext_def Let_def t by simp
qed

lemma splitext_spec:
  "b = fst (splitext b) @ snd (splitext b)
   \<and> (snd (splitext b) = [] \<longleftrightarrow> CHR ''.'' \<notin> set (dropWhile (\<lambda>c. c = CHR ''.'') b))
   \<and> (snd (splitext b) = []
       \<or> hd (snd (splitext b)) = CHR ''.'' \<and> CHR ''.'' \<notin> set (tl (snd (splitext b))))"
proof (cases "CHR ''.'' \<in> set b")
  case False
  then have "CHR ''.'' \<notin> set (dropWhile (\<lambda>c. c = CHR ''.'') b)"
    by (auto dest: set_dropWhileD)
  then show ?thesis using False by (simp add: splitext_nodot)
next
  case True
  then obtain ys zs where b: "b = ys @ CHR ''.'' # zs" and z: "CHR ''.'' \<notin> set zs"
    by (auto dest: split_list_last)
  show ?thesis
  proof (cases "list_all (\<lambda>c. c = CHR ''.'') ys")
    case True
    then have "dropWhile (\<lambda>c. c = CHR ''.'') b = dropWhile (\<lambda>c. c = CHR ''.'') zs"
      by (simp add: b dropWhile_append2 list_all_iff)
    then have "CHR ''.'' \<notin> set (dropWhile (\<lambda>c. c = CHR ''.'') b)"
      using z by (auto dest: set_dropWhileD)
    then show ?thesis using True z by (simp add: b splitext_dot)
  next
    case False
    then obtain y where y: "y \<in> set ys" "y \<noteq> CHR ''.''" by (auto simp: list_all_iff)
    then have "dropWhile (\<lambda>c. c = CHR ''.'') b
               = dropWhile (\<lambda>c. c = CHR ''.'') ys @ CHR ''.'' # zs"
      by (simp add: b dropWhile_append1)
    then have "CHR ''.'' \<in> set (dropWhile (\<lambda>c. c = CHR ''.'') b)" by simp
    then show ?thesis using False z by (simp add: b splitext_dot)
  qed
qed

lemma of_char_lower_char:
  "(of_char (lower_char c) :: nat) = (if is_capital c then of_char c + 32 else of_char c)"
proof -
  have "(of_char c :: nat) + 32 < 256" if "is_capital c"
    using that by (auto simp: is_capital_def is_upper_def Let_def)
  then show ?thesis by (simp add: lower_char_def)
qed

lemma lower_char_no_capital: "\<not> is_capital (lower_char c)"
proof (cases "is_capital c")
  case True
  then have "(of_char (lower_char c) :: nat) = of_char c + 32" by (simp add: of_char_lower_char)
  moreover have "65 \<le> (of_char c :: nat) \<and> (of_char c :: nat) \<le> 90
                 \<or> 192 \<le> (of_char c :: nat) \<and> (of_char c :: nat) \<le> 222"
    using True by (auto simp: is_capital_def is_upper_def Let_def)
  ultimately show ?thesis by (auto simp: is_capital_def is_upper_def Let_def)
next
  case False
  then show ?thesis by (simp add: lower_char_def)
qed

lemma lower_spec:
  "length (lower s) = length s
   \<and> map of_char (lower s)
       = map (\<lambda>c. if is_capital c then of_char c + 32 else (of_char c :: nat)) s
   \<and> list_all (\<lambda>c. \<not> is_capital c) (lower s)"
  by (simp add: lower_def of_char_lower_char lower_char_no_capital list_all_iff)

lemma lower_id: "list_all (\<lambda>c. \<not> is_capital c) s \<Longrightarrow> lower s = s"
  by (induction s) (simp_all add: lower_def lower_char_def)

lemma sanitize_name_id:
  assumes "list_all is_safe s" and "s \<noteq> []" and "hd s \<noteq> CHR ''_''" and "last s \<noteq> CHR ''_''"
  shows "sanitize_name s = s"
  using assms by (simp add: sanitize_name_def Let_def collapse_unsafe_id strip_chars_id)

lemma filename_from_url_eq:
  assumes "urlsplit ok url = Inr parsed"
  shows "filename_from_url ok url i =
     (let base0 = basename (url_path parsed);
          base = (if base0 = [] then ''image'' else base0);
          stem = fst (splitext base);
          ext = lower (snd (splitext base))
      in Inr (format_03d i @ ''_'' @ take 40 (sanitize_name stem)
              @ (if ext = [] \<or> length ext > 10 then ''.img'' else ext)))"
  using assms by (simp add: filename_from_url_def Let_def split: prod.splits)

lemma sanitize_name_image: "sanitize_name ''image'' = ''image''"
  by code_simp

lemma splitext_image: "splitext ''image'' = (''image'', [])"
  by code_simp

text \<open>
  Claim C8, as amended. For every URL that \<open>urlsplit\<close> accepts and every positive index \<open>i\<close>,
  the file name is made of four parts.
  \<^item> The index in decimal, padded with zeros to at least three digits: exactly three when
    \<open>i < 1000\<close>, more otherwise.
  \<^item> An underscore.
  \<^item> The name: the stem of the base name, sanitised and cut to 40 characters. The base name
    is what follows the last slash of the URL's path, or \<open>image\<close> when that is empty; its
    extension starts at its last dot, unless only dots come before that dot, and the stem is
    what comes before the extension. The name is never empty, contains only characters of
    \<open>[A-Za-z0-9._-]\<close>, and is the stem itself, cut to 40 characters, when the stem needs no
    cleaning.
  \<^item> The extension in lower case (each capital replaced by the character 32 code points
    above it), or \<open>.img\<close> when the extension is absent or, in lower case, longer than 10
    characters, its dot counted.
\<close>

theorem filename_from_url_shape:
  assumes "urlsplit ok url = Inr parsed" and "0 < i"
  shows "let base0 = basename (url_path parsed);
             base = (if base0 = [] then ''image'' else base0);
             stem = fst (splitext base);
             ext0 = snd (splitext base);
             num = format_03d i;
             name = take 40 (sanitize_name stem);
             ext = lower ext0
         in filename_from_url ok url i =
              Inr (num @ ''_'' @ name @ (if ext = [] \<or> length ext > 10 then ''.img'' else ext))
            \<and> list_all is_digit num \<and> decimal_value num = nat i
            \<and> 3 \<le> length num \<and> (length num = 3 \<longleftrightarrow> i < 1000)
            \<and> (\<exists>dir. url_path parsed = dir @ base0 \<and> (dir = [] \<or> last dir = CHR ''/''))
            \<and> CHR ''/'' \<notin> set base0
            \<and> base = stem @ ext0
            \<and> (ext0 = [] \<longleftrightarrow> CHR ''.'' \<notin> set (dropWhile (\<lambda>c. c = CHR ''.'') base))
            \<and> (ext0 = [] \<or> hd ext0 = CHR ''.'' \<and> CHR ''.'' \<notin> set (tl ext0))
            \<and> name \<noteq> [] \<and> length name \<le> 40 \<and> list_all is_safe name
            \<and> (if base0 = [] then name = ''image'' else True)
            \<and> (list_all is_safe stem \<and> stem \<noteq> [] \<and> hd stem \<noteq> CHR ''_'' \<and> last stem \<noteq> CHR ''_''
                 \<longrightarrow> name = take 40 stem)
            \<and> length ext = length ext0
            \<and> map of_char ext
                = map (\<lambda>c. if is_capital c then of_char c + 32 else (of_char c :: nat)) ext0
            \<and> list_all (\<lambda>c. \<not> is_capital c) ext"
proof -
  define base0 where "base0 = basename (url_path parsed)"
  define base where "base = (if base0 = [] then ''image'' else base0)"
  define stem where "stem = fst (splitext base)"
  define ext0 where "ext0 = snd (splitext base)"
  define num where "num = format_03d i"
  define name where "name = take 40 (sanitize_name stem)"
  define ext where "ext = lower ext0"
  have i0: "0 \<le> i" using assms(2) by simp
  have c1: "filename_from_url ok url i =
              Inr (num @ ''_'' @ name @ (if ext = [] \<or> length ext > 10 then ''.img'' else ext))"
    using filename_from_url_eq [OF assms(1), of i]
    by (simp add: Let_def base0_def base_def stem_def ext0_def num_def name_def ext_def)
  have c2: "list_all is_digit num" "decimal_value num = nat i" "3 \<le> length num"
    "length num = 3 \<longleftrightarrow> i < 1000"
    using format_03d_nonneg [OF i0] by (simp_all add: num_def)
  have c3: "\<exists>dir. url_path parsed = dir @ base0 \<and> (dir = [] \<or> last dir = CHR ''/'')"
    "CHR ''/'' \<notin> set base0"
    unfolding base0_def by (rule basename_split, rule basename_no_slash)
  have c4: "base = stem @ ext0"
    "ext0 = [] \<longleftrightarrow> CHR ''.'' \<notin> set (dropWhile (\<lambda>c. c = CHR ''.'') base)"
    "ext0 = [] \<or> hd ext0 = CHR ''.'' \<and> CHR ''.'' \<notin> set (tl ext0)"
    using splitext_spec [of base] unfolding stem_def ext0_def by blast+
  have "list_all is_safe (sanitize_name stem)" by (rule sanitize_name_safe)
  then have safe: "list_all is_safe name"
    by (auto simp: name_def list_all_iff dest: in_set_takeD)
  have c5: "name \<noteq> []" "length name \<le> 40"
    using sanitize_name_nonempty [of stem] by (simp_all add: name_def)
  have c6: "if base0 = [] then name = ''image'' else True"
    by (simp add: name_def stem_def base_def splitext_image sanitize_name_image)
  have c7: "list_all is_safe stem \<and> stem \<noteq> [] \<and> hd stem \<noteq> CHR ''_'' \<and> last stem \<noteq> CHR ''_''
            \<longrightarrow> name = take 40 stem"
    by (simp add: name_def sanitize_name_id)
  have c8: "length ext = length ext0"
    "map of_char ext = map (\<lambda>c. if is_capital c then of_char c + 32 else (of_char c :: nat)) ext0"
    "list_all (\<lambda>c. \<not> is_capital c) ext"
    using lower_spec [of ext0] by (simp_all add: ext_def)
  have "filename_from_url ok url i =
              Inr (num @ ''_'' @ name @ (if ext = [] \<or> length ext > 10 then ''.img'' else ext))
            \<and> list_all is_digit num \<and> decimal_value num = nat i
            \<and> 3 \<le> length num \<and> (length num = 3 \<longleftrightarrow> i < 1000)
            \<and> (\<exists>dir. url_path parsed = dir @ base0 \<and> (dir = [] \<or> last dir = CHR ''/''))
            \<and> CHR ''/'' \<notin> set base0
            \<and> base = stem @ ext0
            \<and> (ext0 = [] \<longleftrightarrow> CHR ''.'' \<notin> set (dropWhile (\<lambda>c. c = CHR ''.'') base))
            \<and> (ext0 = [] \<or> hd ext0 = CHR ''.'' \<and> CHR ''.'' \<notin> set (tl ext0))
            \<and> name \<noteq> [] \<and> length name \<le> 40 \<and> list_all is_safe name
            \<and> (if base0 = [] then name = ''image'' else True)
            \<and> (list_all is_safe stem \<and> stem \<noteq> [] \<and> hd stem \<noteq> CHR ''_'' \<and> last stem \<noteq> CHR ''_''
                 \<longrightarrow> name = take 40 stem)
            \<and> length ext = length ext0
            \<and> map of_char ext
                = map (\<lambda>c. if is_capital c then of_char c + 32 else (of_char c :: nat)) ext0
            \<and> list_all (\<lambda>c. \<not> is_capital c) ext"
    using c1 c2 c3 c4 safe c5 c6 c7 c8 by blast
  then show ?thesis
    unfolding Let_def base0_def base_def stem_def ext0_def num_def name_def ext_def .
qed

theorem filename_from_url_shape_witness:
  "urlsplit (\<lambda>loc. True) (''https://h/dir/My Pic!.PN'' @ [char_of (201::nat)] @ ''?x=1#f'')
     = Inr \<lparr>scheme = ''https'', netloc = ''h'',
            url_path = ''/dir/My Pic!.PN'' @ [char_of (201::nat)], query = ''x=1'',
            fragment = ''f''\<rparr>
   \<and> (0::int) < 7
   \<and> basename (''/dir/My Pic!.PN'' @ [char_of (201::nat)]) = ''My Pic!.PN'' @ [char_of (201::nat)]
   \<and> splitext (''My Pic!.PN'' @ [char_of (201::nat)]) = (''My Pic!'', ''.PN'' @ [char_of (201::nat)])
   \<and> sanitize_name ''My Pic!'' = ''My_Pic''
   \<and> lower (''.PN'' @ [char_of (201::nat)]) = ''.pn'' @ [char_of (233::nat)]
   \<and> filename_from_url (\<lambda>loc. True)
        (''https://h/dir/My Pic!.PN'' @ [char_of (201::nat)] @ ''?x=1#f'') 7
       = Inr (''007_My_Pic.pn'' @ [char_of (233::nat)])
   \<and> decimal_value (format_03d 7) = 7 \<and> length (format_03d 7) = 3"
proof -
  have u: "urlsplit (\<lambda>loc. True) (''https://h/dir/My Pic!.PN'' @ [char_of (201::nat)] @ ''?x=1#f'')
     = Inr \<lparr>scheme = ''https'', netloc = ''h'',
            url_path = ''/dir/My Pic!.PN'' @ [char_of (201::nat)], query = ''x=1'',
            fragment = ''f''\<rparr>"
    by code_simp
  have p: "(0::int) < 7" by simp
  have b: "basename (''/dir/My Pic!.PN'' @ [char_of (201::nat)]) = ''My Pic!.PN'' @ [char_of (201::nat)]"
    by code_simp
  have s: "splitext (''My Pic!.PN'' @ [char_of (201::nat)]) = (''My Pic!'', ''.PN'' @ [char_of (201::nat)])"
    by code_simp
  have n: "sanitize_name ''My Pic!'' = ''My_Pic''"
    by code_simp
  have l: "lower (''.PN'' @ [char_of (201::nat)]) = ''.pn'' @ [char_of (233::nat)]"
    by code_simp
  have f: "format_03d 7 = ''007''" by code_simp
  have d: "decimal_value ''007'' = 7" by code_simp
  have e: "(''My Pic!.PN'' @ [char_of (201::nat)] = []) = False" by simp
  have "filename_from_url (\<lambda>loc. True)
        (''https://h/dir/My Pic!.PN'' @ [char_of (201::nat)] @ ''?x=1#f'') 7
       = Inr (''007_My_Pic.pn'' @ [char_of (233::nat)])
     \<and> decimal_value (format_03d 7) = 7 \<and> length (format_03d 7) = 3"
    using filename_from_url_shape [OF u p]
    unfolding Let_def split_result.simps b s n l f d e fst_conv snd_conv if_False
    by simp
  then show ?thesis using u b s n l by simp
qed

theorem filename_from_url_counterexample:
  "filename_from_url (\<lambda>_. True) ''https://h/a.png'' 1000 = Inr ''1000_a.png''
   \<and> length (takeWhile is_digit ''1000_a.png'') = 4
   \<and> filename_from_url (\<lambda>_. True) ''https://[h/a.png'' 1 = Inl ValueError"
  by code_simp

section \<open>Properties of the comment ordering\<close>

lemma insort_key_idx:
  "\<forall>y\<in>set ys. idx x < idx y \<Longrightarrow>
   insort_key (\<lambda>x. (k x, idx x)) x ys = insort_key k x ys"
  for idx :: "'a \<Rightarrow> nat" and k :: "'a \<Rightarrow> 'b::linorder"
  by (induction ys) (auto simp: less_eq_prod_def)

lemma sort_key_idx:
  "sorted_wrt (<) (map idx xs) \<Longrightarrow> sort_key (\<lambda>x. (k x, idx x)) xs = sort_key k xs"
  for idx :: "'a \<Rightarrow> nat" and k :: "'a \<Rightarrow> 'b::linorder"
proof (induction xs)
  case Nil
  then show ?case by simp
next
  case (Cons x xs)
  then have ih: "sort_key (\<lambda>x. (k x, idx x)) xs = sort_key k xs" by simp
  have "\<forall>y\<in>set (sort_key k xs). idx x < idx y" using Cons.prems by auto
  then show ?case by (simp add: ih insort_key_idx)
qed

lemma map_insort_key:
  "map f (insort_key (\<lambda>x. k (f x)) x ys) = insort_key k (f x) (map f ys)"
  by (induction ys) auto

lemma map_sort_key:
  "map f (sort_key (\<lambda>x. k (f x)) xs) = sort_key k (map f xs)"
  by (induction xs) (auto simp: map_insort_key)

lemma sorted_wrt_enumerate: "sorted_wrt (<) (map fst (enumerate n xs))"
  by (simp add: sorted_wrt_iff_nth_less nth_enumerate_eq)

lemma sort_comments_eq:
  "sort_comments f cs = sort_key (\<lambda>c. ts_key (created_ts f c)) cs"
proof -
  let ?g = "\<lambda>(idx, c). (created_ts f c, idx, c)"
  let ?E = "enumerate 0 cs"
  have 1: "sort_key (\<lambda>(ts, idx, c). (ts_key ts, idx)) (map ?g ?E)
        = sort_key (\<lambda>(ts, idx, c). ts_key ts) (map ?g ?E)"
    using sort_key_idx [of "\<lambda>(ts, idx, c). idx" "map ?g ?E" "\<lambda>(ts, idx, c). ts_key ts"]
      sorted_wrt_enumerate [of 0 cs]
    by (simp add: case_prod_unfold comp_def)
  have 2: "map (\<lambda>(ts, idx, c). c) (sort_key (\<lambda>(ts, idx, c). ts_key ts) (map ?g ?E))
        = sort_key (\<lambda>c. ts_key (created_ts f c)) cs"
  proof -
    have "sort_key (\<lambda>(ts, idx, c). ts_key ts) (map ?g ?E)
        = map ?g (sort_key (\<lambda>p. ts_key (created_ts f (snd p))) ?E)"
      using map_sort_key [of ?g "\<lambda>(ts, idx, c). ts_key ts" ?E]
      by (simp add: case_prod_unfold)
    moreover have "map snd (sort_key (\<lambda>p. ts_key (created_ts f (snd p))) ?E)
        = sort_key (\<lambda>c. ts_key (created_ts f c)) (map snd ?E)"
      by (rule map_sort_key)
    ultimately show ?thesis by (simp add: case_prod_unfold comp_def)
  qed
  show ?thesis by (simp add: sort_comments_def Let_def 1 2)
qed

lemma ts_key_le: "ts_key a \<le> ts_key b \<longleftrightarrow> ts_le a b"
  by (auto simp: ts_key_def ts_le_def less_eq_prod_def split: option.splits)

lemma ts_key_inj: "ts_key a = ts_key b \<longleftrightarrow> a = b"
  by (auto simp: ts_key_def split: option.splits)

lemma sorted_map_wrt: "sorted (map k xs) = sorted_wrt (\<lambda>a b. k a \<le> k b) xs"
  by (simp add: sorted_wrt_map)

lemma sorted_split_top:
  "sorted_wrt (\<lambda>a b. ts_le (t a) (t b)) xs \<Longrightarrow>
   xs = filter (\<lambda>c. t c \<noteq> None) xs @ filter (\<lambda>c. t c = None) xs"
proof (induction xs)
  case Nil
  then show ?case by simp
next
  case (Cons x xs)
  show ?case
  proof (cases "t x")
    case None
    then have "\<forall>y\<in>set xs. t y = None"
      using Cons.prems by (auto simp: ts_le_def split: option.splits)
    then have "filter (\<lambda>c. t c \<noteq> None) xs = []" "filter (\<lambda>c. t c = None) xs = xs"
      by (auto simp: filter_empty_conv filter_id_conv)
    then show ?thesis using None by simp
  next
    case (Some a)
    then show ?thesis using Cons by simp
  qed
qed

text \<open>
  Claim C4. For every comment list, \<open>sort_comments\<close> returns a permutation of it, ordered
  non-decreasingly by the parsed creation timestamp (a missing or unparseable timestamp counts
  as infinity); the comments with a parseable timestamp come first and those without after
  them; and the comments of any one timestamp value, the unparseable ones among themselves
  included, keep their input order.
\<close>

theorem sort_comments_stable_sorted:
  "mset (sort_comments f cs) = mset cs
   \<and> sorted_wrt (\<lambda>a b. ts_le (created_ts f a) (created_ts f b)) (sort_comments f cs)
   \<and> sort_comments f cs
       = filter (\<lambda>c. created_ts f c \<noteq> None) (sort_comments f cs)
         @ filter (\<lambda>c. created_ts f c = None) (sort_comments f cs)
   \<and> filter (\<lambda>c. created_ts f c = t) (sort_comments f cs) = filter (\<lambda>c. created_ts f c = t) cs"
proof -
  let ?k = "\<lambda>c. ts_key (created_ts f c)"
  have s: "sorted_wrt (\<lambda>a b. ts_le (created_ts f a) (created_ts f b)) (sort_comments f cs)"
    using sorted_sort_key [of ?k cs]
    by (simp add: sort_comments_eq sorted_map_wrt ts_key_le)
  have st: "filter (\<lambda>c. ?k c = ts_key t) (sort_key ?k cs) = filter (\<lambda>c. ?k c = ts_key t) cs"
    by (rule sort_key_stable)
  show ?thesis
    using s sorted_split_top [OF s] st
    by (simp add: sort_comments_eq ts_key_inj)
qed

section \<open>Properties of the image tracker\<close>

lemma download_with_gh_frame:
  "download_with_gh e s url p = (ok, s') \<Longrightarrow>
   stats s' = stats s \<and> missing_rows s' = missing_rows s \<and> attempts s' = attempts s"
  by (auto simp: download_with_gh_def Let_def
      split: sum.splits gh_outcome.splits option.splits)

lemma try_candidates_frame:
  "try_candidates e s tok p cs = (ok, s') \<Longrightarrow>
   stats s' = stats s \<and> missing_rows s' = missing_rows s \<and> attempts s' = attempts s"
proof (induction cs arbitrary: s)
  case Nil
  then show ?case by simp
next
  case (Cons c cs)
  show ?case
  proof (cases "http e tok c")
    case Refused
    then show ?thesis using Cons by simp
  next
    case (Body b)
    then show ?thesis using Cons.prems by auto
  next
    case (Broken b)
    then have "try_candidates e (s\<lparr>files := (files s)(p \<mapsto> b)\<rparr>) tok p cs = (ok, s')"
      using Cons.prems by simp
    from Cons.IH [OF this] show ?thesis by simp
  qed
qed

lemma download_image_frame:
  assumes "download_image e s url p tok = Inr (ok, s')"
  shows "stats s' = stats s \<and> missing_rows s' = missing_rows s
         \<and> attempts s' = attempts s @ [url]"
proof -
  let ?s = "s\<lparr>attempts := attempts s @ [url]\<rparr>"
  show ?thesis
  proof (cases "files ?s p \<noteq> None")
    case True
    then show ?thesis using assms by (auto simp: download_image_def Let_def)
  next
    case False
    then obtain cands where c: "candidate_urls (netloc_ok e) url = Inr cands"
      using assms by (auto simp: download_image_def Let_def split: sum.splits)
    obtain ok1 s1 where t: "try_candidates e ?s tok p cands = (ok1, s1)"
      by (cases "try_candidates e ?s tok p cands") auto
    have f1: "stats s1 = stats s \<and> missing_rows s1 = missing_rows s
              \<and> attempts s1 = attempts s @ [url]"
      using try_candidates_frame [OF t] by simp
    show ?thesis
    proof (cases ok1)
      case True
      then show ?thesis using assms False c t f1
        by (auto simp: download_image_def Let_def)
    next
      case nok: False
      then obtain ua where u: "is_user_attachment (netloc_ok e) url = Inr ua"
        using assms False c t by (auto simp: download_image_def Let_def split: sum.splits)
      show ?thesis
      proof (cases ua)
        case True
        then have "download_with_gh e s1 url p = (ok, s')"
          using assms False c t nok u by (auto simp: download_image_def Let_def)
        from download_with_gh_frame [OF this] f1 show ?thesis by simp
      next
        case False
        then show ?thesis using assms \<open>\<not> files ?s p \<noteq> None\<close> c t nok u f1
          by (auto simp: download_image_def Let_def)
      qed
    qed
  qed
qed

lemma get_local_cached:
  "url_to_rel tr url = Some rel \<Longrightarrow> get_local e tr s url = Inr (rel, tr, s)"
  by (simp add: get_local_def)

lemma repair_ext_frame:
  "repair_ext e s p = (p', s') \<Longrightarrow>
   stats s' = stats s \<and> missing_rows s' = missing_rows s \<and> attempts s' = attempts s"
  by (auto simp: repair_ext_def Let_def split: if_splits option.splits)

lemma get_local_miss:
  assumes miss: "url_to_rel tr url = None"
    and res: "get_local e tr s url = Inr (rel, tr', s')"
  shows "\<exists>filename ok s2.
           filename_from_url (netloc_ok e) url (counter tr + 1) = Inr filename
         \<and> download_image e (s\<lparr>stats := (stats s)\<lparr>attempted := attempted (stats s) + 1\<rparr>\<rparr>) url
              (assets_dir tr @ [filename]) (token tr) = Inr (ok, s2)
         \<and> tr' = tr\<lparr>counter := counter tr + 1, url_to_rel := (url_to_rel tr)(url \<mapsto> rel)\<rparr>
         \<and> attempts s' = attempts s @ [url]
         \<and> attempted (stats s') = attempted (stats s) + 1
         \<and> (if ok
             then downloaded (stats s') = downloaded (stats s) + 1
                  \<and> failed (stats s') = failed (stats s)
                  \<and> missing_rows s' = missing_rows s
             else downloaded (stats s') = downloaded (stats s)
                  \<and> failed (stats s') = failed (stats s) + 1
                  \<and> rel = relpath (assets_dir tr @ [filename]) (md_dir tr)
                  \<and> missing_rows s' =
                      (case missing_cb tr of None \<Rightarrow> missing_rows s
                       | Some cb \<Rightarrow> cb url rel (missing_rows s)))"
proof -
  let ?s1 = "s\<lparr>stats := (stats s)\<lparr>attempted := attempted (stats s) + 1\<rparr>\<rparr>"
  obtain filename where fn: "filename_from_url (netloc_ok e) url (counter tr + 1) = Inr filename"
    using miss res by (cases "filename_from_url (netloc_ok e) url (counter tr + 1)")
      (simp_all add: get_local_def Let_def)
  let ?ap = "assets_dir tr @ [filename]"
  obtain ok s2 where dl: "download_image e ?s1 url ?ap (token tr) = Inr (ok, s2)"
    using miss res fn by (cases "download_image e ?s1 url ?ap (token tr)")
      (auto simp add: get_local_def Let_def)
  have fr: "stats s2 = stats ?s1" "missing_rows s2 = missing_rows s"
    "attempts s2 = attempts s @ [url]"
    using download_image_frame [OF dl] by simp_all
  show ?thesis
  proof (cases ok)
    case False
    have "get_local e tr s url =
        (let s3 = s2\<lparr>stats := (stats s2)\<lparr>failed := failed (stats s2) + 1\<rparr>\<rparr>;
             rel = relpath ?ap (md_dir tr)
         in Inr (rel, tr\<lparr>counter := counter tr + 1, url_to_rel := (url_to_rel tr)(url \<mapsto> rel)\<rparr>,
                 (case missing_cb tr of None \<Rightarrow> s3
                  | Some cb \<Rightarrow> s3\<lparr>missing_rows := cb url rel (missing_rows s3)\<rparr>)))"
      using miss fn dl False by (simp add: get_local_def Let_def)
    then have r: "rel = relpath ?ap (md_dir tr)"
      "tr' = tr\<lparr>counter := counter tr + 1, url_to_rel := (url_to_rel tr)(url \<mapsto> rel)\<rparr>"
      "s' = (case missing_cb tr of
               None \<Rightarrow> s2\<lparr>stats := (stats s2)\<lparr>failed := failed (stats s2) + 1\<rparr>\<rparr>
             | Some cb \<Rightarrow> s2\<lparr>stats := (stats s2)\<lparr>failed := failed (stats s2) + 1\<rparr>,
                             missing_rows := cb url rel (missing_rows s2)\<rparr>)"
      using res by (simp_all add: Let_def split: option.splits)
    have "attempts s' = attempts s @ [url]" "stats s' = (stats s2)\<lparr>failed := failed (stats s2) + 1\<rparr>"
      "missing_rows s' = (case missing_cb tr of None \<Rightarrow> missing_rows s
                           | Some cb \<Rightarrow> cb url rel (missing_rows s))"
      using r(3) fr by (simp_all split: option.splits)
    then show ?thesis using fn dl False r(1,2) fr(1)
      by (intro exI [of _ filename] exI [of _ ok] exI [of _ s2]) simp
  next
    case True
    obtain ap' s3 where rp: "repair_ext e s2 ?ap = (ap', s3)"
      by (cases "repair_ext e s2 ?ap") auto
    have f3: "stats s3 = stats s2" "missing_rows s3 = missing_rows s2" "attempts s3 = attempts s2"
      using repair_ext_frame [OF rp] by simp_all
    have "get_local e tr s url =
        Inr (relpath ap' (md_dir tr),
             tr\<lparr>counter := counter tr + 1,
                url_to_rel := (url_to_rel tr)(url \<mapsto> relpath ap' (md_dir tr))\<rparr>,
             s3\<lparr>stats := (stats s3)\<lparr>downloaded := downloaded (stats s3) + 1\<rparr>\<rparr>)"
      using miss fn dl True rp by (simp add: get_local_def Let_def)
    then have r: "rel = relpath ap' (md_dir tr)"
      "tr' = tr\<lparr>counter := counter tr + 1, url_to_rel := (url_to_rel tr)(url \<mapsto> rel)\<rparr>"
      "s' = s3\<lparr>stats := (stats s3)\<lparr>downloaded := downloaded (stats s3) + 1\<rparr>\<rparr>"
      using res by simp_all
    show ?thesis using fn dl True r(2) r(3) f3 fr
      by (intro exI [of _ filename] exI [of _ ok] exI [of _ s2]) simp
  qed
qed

lemma get_local_keeps_cache:
  assumes "get_local e tr s v = Inr (r, tr', s')" and "url_to_rel tr u = Some x"
  shows "url_to_rel tr' u = Some x
         \<and> count_list (attempts s') u = count_list (attempts s) u
         \<and> (if v = u then r = x else True)"
proof (cases "url_to_rel tr v")
  case None
  then have "v \<noteq> u" using assms(2) by auto
  then show ?thesis using get_local_miss [OF None assms(1)] assms(2) by auto
next
  case (Some y)
  then show ?thesis using assms get_local_cached [OF Some, of e s] by auto
qed

lemma get_local_caches:
  assumes "get_local e tr s url = Inr (rel, tr1, s1)"
  shows "url_to_rel tr1 url = Some rel
         \<and> count_list (attempts s1) url
             = count_list (attempts s) url + (if url_to_rel tr url = None then 1 else 0)"
proof (cases "url_to_rel tr url")
  case None
  then show ?thesis using get_local_miss [OF None assms] by auto
next
  case (Some y)
  then show ?thesis using assms get_local_cached [OF Some, of e s] by auto
qed

lemma get_local_all_keeps_cache:
  "get_local_all e tr s urls = Inr (rels, tr', s') \<Longrightarrow> url_to_rel tr u = Some x \<Longrightarrow>
   url_to_rel tr' u = Some x
   \<and> count_list (attempts s') u = count_list (attempts s) u
   \<and> length rels = length urls
   \<and> (\<forall>i < length urls. urls ! i = u \<longrightarrow> rels ! i = x)"
proof (induction urls arbitrary: tr s rels)
  case Nil
  then show ?case by simp
next
  case (Cons v vs)
  obtain r tr1 s1 where g: "get_local e tr s v = Inr (r, tr1, s1)"
    using Cons.prems(1) by (cases "get_local e tr s v") auto
  obtain rs where a: "get_local_all e tr1 s1 vs = Inr (rs, tr', s')" and rr: "rels = r # rs"
    using Cons.prems(1) g by (cases "get_local_all e tr1 s1 vs") auto
  note k = get_local_keeps_cache [OF g Cons.prems(2)]
  have c1: "url_to_rel tr1 u = Some x" using k by simp
  note ih = Cons.IH [OF a c1]
  have "\<forall>i < length (v # vs). (v # vs) ! i = u \<longrightarrow> (r # rs) ! i = x"
  proof (intro allI impI)
    fix i assume "i < length (v # vs)" "(v # vs) ! i = u"
    then show "(r # rs) ! i = x" using k ih by (cases i) (auto split: if_splits)
  qed
  then show ?case using k ih rr by simp
qed

lemma example_filename:
  "filename_from_url (\<lambda>loc. True) example_url 1 = Inr ''001_abc.img''"
  by code_simp

lemma example_candidates: "candidate_urls (\<lambda>loc. True) example_url = Inr [example_url]"
  by code_simp

lemma example_not_attachment: "is_user_attachment (\<lambda>loc. True) example_url = Inr False"
  by code_simp

lemma example_relpath:
  "relpath [''export'', ''o_r'', ''assets'', ''issues'', ''5'', ''001_abc.img'']
     [''export'', ''o_r'', ''issues''] = ''../assets/issues/5/001_abc.img''"
  by code_simp

lemma example_suffix:
  "lower (path_suffix [''export'', ''o_r'', ''assets'', ''issues'', ''5'', ''001_abc.img'']) = ''.img''"
  by code_simp

lemma example_sniff: "detect_ext_from_file (Some []) = None"
  by code_simp

lemma example_row:
  "make_missing_cb ''o/r'' ''issue'' 5 example_url ''../assets/issues/5/001_abc.img'' []
   = [\<lparr>row_repo = ''o/r'', row_repo_slug = ''o_r'', row_kind = ''issue'', row_number = ''5'',
       row_url = example_url, row_local_path = ''assets/issues/5/001_abc.img'',
       row_md_path = ''issues/ISSUE-5.md''\<rparr>]"
  by code_simp

lemma example_refused:
  "\<exists>tr' s'. get_local (example_world Refused) example_tracker example_state example_url
             = Inr (''../assets/issues/5/001_abc.img'', tr', s')
     \<and> attempted (stats s') = 1 \<and> downloaded (stats s') = 0 \<and> failed (stats s') = 1
     \<and> length (missing_rows s') = 1
     \<and> row_url (hd (missing_rows s')) = example_url
     \<and> row_local_path (hd (missing_rows s')) = ''assets/issues/5/001_abc.img''
     \<and> files s' = Map.empty"
  by (simp add: get_local_def download_image_def example_world_def example_tracker_def
      example_state_def ImageTracker_init_def ImageStats_init_def Let_def example_filename
      example_candidates example_not_attachment example_relpath example_row)

text \<open>
  Claim C1. Once \<open>get_local\<close> has been called for a URL on a tracker, every later call for
  that URL on the same tracker returns the same relative path, whatever other calls came in
  between, and changes neither the tracker nor the program state: no download, no sniffing,
  no counter. Over all these calls \<open>download_image\<close> is called for the URL exactly once
  (by the first call, unless the URL was cached already).
\<close>

theorem get_local_idempotent:
  assumes first: "get_local e tr s url = Inr (rel, tr1, s1)"
    and run: "get_local_all e tr1 s1 urls = Inr (rels, tr2, s2)"
  shows "get_local e tr2 s2 url = Inr (rel, tr2, s2)
     \<and> count_list (attempts s2) url
         = count_list (attempts s) url + (if url_to_rel tr url = None then 1 else 0)
     \<and> (\<forall>i < length urls. urls ! i = url \<longrightarrow> rels ! i = rel)"
proof -
  note c = get_local_caches [OF first]
  have c1: "url_to_rel tr1 url = Some rel" using c by simp
  note k = get_local_all_keeps_cache [OF run c1]
  have "url_to_rel tr2 url = Some rel" using k by simp
  then have "get_local e tr2 s2 url = Inr (rel, tr2, s2)" by (rule get_local_cached)
  then show ?thesis using c k by simp
qed

theorem get_local_idempotent_witness:
  "\<exists>rel tr1 s1.
     get_local (example_world Refused) example_tracker example_state example_url
       = Inr (rel, tr1, s1)
     \<and> get_local_all (example_world Refused) tr1 s1 [example_url, example_url]
       = Inr ([rel, rel], tr1, s1)
     \<and> get_local (example_world Refused) tr1 s1 example_url = Inr (rel, tr1, s1)
     \<and> count_list (attempts s1) example_url = 1"
proof -
  from example_refused obtain tr1 s1 where
    first: "get_local (example_world Refused) example_tracker example_state example_url
            = Inr (''../assets/issues/5/001_abc.img'', tr1, s1)"
    by blast
  have c: "url_to_rel tr1 example_url = Some ''../assets/issues/5/001_abc.img''"
    using get_local_caches [OF first] by simp
  have run: "get_local_all (example_world Refused) tr1 s1 [example_url, example_url]
             = Inr ([''../assets/issues/5/001_abc.img'', ''../assets/issues/5/001_abc.img''], tr1, s1)"
    by (simp add: get_local_cached [OF c])
  have fresh: "url_to_rel example_tracker example_url = None" "attempts example_state = []"
    by (simp_all add: example_tracker_def example_state_def ImageTracker_init_def)
  from get_local_idempotent [OF first run] fresh first run show ?thesis by simp
qed

lemma download_image_raised:
  assumes "download_image e s url p tok = Inl (err, s')"
  shows "stats s' = stats s \<and> missing_rows s' = missing_rows s"
proof -
  let ?s = "s\<lparr>attempts := attempts s @ [url]\<rparr>"
  have nf: "files ?s p = None"
    using assms by (auto simp: download_image_def Let_def split: if_splits)
  show ?thesis
  proof (cases "candidate_urls (netloc_ok e) url")
    case (Inl a)
    then show ?thesis using assms nf by (auto simp: download_image_def Let_def)
  next
    case (Inr cands)
    obtain ok1 s1 where t: "try_candidates e ?s tok p cands = (ok1, s1)"
      by (cases "try_candidates e ?s tok p cands") auto
    have f1: "stats s1 = stats s \<and> missing_rows s1 = missing_rows s"
      using try_candidates_frame [OF t] by simp
    have "s' = s1"
      using assms nf Inr t
      by (cases ok1; cases "is_user_attachment (netloc_ok e) url")
        (auto simp: download_image_def Let_def split: if_splits)
    then show ?thesis using f1 by simp
  qed
qed

lemma get_local_raised:
  assumes "get_local e tr s url = Inl (err, tr', s')"
  shows "url_to_rel tr url = None \<and> url_to_rel tr' = url_to_rel tr
         \<and> counter tr' = counter tr + 1
         \<and> stats s' = (stats s)\<lparr>attempted := attempted (stats s) + 1\<rparr>
         \<and> missing_rows s' = missing_rows s"
proof -
  let ?tr1 = "tr\<lparr>counter := counter tr + 1\<rparr>"
  let ?s1 = "s\<lparr>stats := (stats s)\<lparr>attempted := attempted (stats s) + 1\<rparr>\<rparr>"
  have miss: "url_to_rel tr url = None"
    using assms by (cases "url_to_rel tr url") (auto simp: get_local_def)
  show ?thesis
  proof (cases "filename_from_url (netloc_ok e) url (counter tr + 1)")
    case (Inl a)
    then show ?thesis using assms miss by (auto simp: get_local_def Let_def)
  next
    case (Inr filename)
    show ?thesis
    proof (cases "download_image e ?s1 url (assets_dir tr @ [filename]) (token tr)")
      case (Inl a)
      obtain err2 s2 where a: "a = (err2, s2)" by (cases a) auto
      have "tr' = ?tr1" "s' = s2"
        using assms miss Inr Inl a by (auto simp: get_local_def Let_def)
      then show ?thesis
        using download_image_raised [OF Inl [unfolded a]] miss by simp
    next
      case dl: (Inr b)
      obtain ok s2 where b: "b = (ok, s2)" by (cases b) auto
      obtain p3 s3 where rp: "repair_ext e s2 (assets_dir tr @ [filename]) = (p3, s3)"
        by (cases "repair_ext e s2 (assets_dir tr @ [filename])") auto
      have False
        using assms miss Inr dl b rp by (cases ok) (auto simp: get_local_def Let_def)
      then show ?thesis ..
    qed
  qed
qed

text \<open>
  Claim C10, as amended. A call of \<open>get_local\<close> that finds the URL in the cache changes no
  counter. A call that misses and returns adds one to \<open>attempted\<close> and one to exactly one of
  \<open>downloaded\<close> and \<open>failed\<close>, so that the equation \<open>attempted = downloaded + failed\<close>
  holds after the call iff it held before. A call that misses and is left by an exception
  adds one to \<open>attempted\<close> and nothing to the other two. No call decreases a counter, and
  the equation holds for the counters as \<open>ImageStats\<close> creates them.
\<close>

theorem get_local_counters:
  "(case get_local e tr s url of
      Inr (rel, tr', s') \<Rightarrow>
        (if url_to_rel tr url \<noteq> None then stats s' = stats s
         else attempted (stats s') = attempted (stats s) + 1
              \<and> (downloaded (stats s') = downloaded (stats s) + 1
                   \<and> failed (stats s') = failed (stats s)
                 \<or> downloaded (stats s') = downloaded (stats s)
                   \<and> failed (stats s') = failed (stats s) + 1))
        \<and> attempted (stats s) \<le> attempted (stats s')
        \<and> downloaded (stats s) \<le> downloaded (stats s')
        \<and> failed (stats s) \<le> failed (stats s')
        \<and> (attempted (stats s') = downloaded (stats s') + failed (stats s'))
            = (attempted (stats s) = downloaded (stats s) + failed (stats s))
    | Inl (err, tr', s') \<Rightarrow>
        url_to_rel tr url = None
        \<and> attempted (stats s') = attempted (stats s) + 1
        \<and> downloaded (stats s') = downloaded (stats s)
        \<and> failed (stats s') = failed (stats s))
   \<and> attempted ImageStats_init = downloaded ImageStats_init + failed ImageStats_init"
proof (cases "get_local e tr s url")
  case (Inl a)
  obtain err tr' s' where a: "a = (err, tr', s')" by (cases a) auto
  from get_local_raised [OF Inl [unfolded a]] show ?thesis
    using Inl a by (simp add: ImageStats_init_def)
next
  case (Inr b)
  obtain rel tr' s' where b: "b = (rel, tr', s')" by (cases b) auto
  note res = Inr [unfolded b]
  show ?thesis
  proof (cases "url_to_rel tr url")
    case None
    from get_local_miss [OF None res] obtain ok where
      "attempted (stats s') = attempted (stats s) + 1"
      "if ok then downloaded (stats s') = downloaded (stats s) + 1
                  \<and> failed (stats s') = failed (stats s)
       else downloaded (stats s') = downloaded (stats s)
            \<and> failed (stats s') = failed (stats s) + 1"
      by (auto split: if_splits)
    then show ?thesis using None Inr b by (cases ok) (simp_all add: ImageStats_init_def)
  next
    case (Some y)
    then show ?thesis using res get_local_cached [OF Some, of e s] Inr b
      by (simp add: ImageStats_init_def)
  qed
qed

theorem get_local_counters_witness:
  "\<exists>rel tr' s'.
     get_local (example_world Refused) example_tracker example_state example_url
       = Inr (rel, tr', s')
     \<and> attempted (stats s') = 1 \<and> downloaded (stats s') + failed (stats s') = 1
     \<and> 0 \<le> downloaded (stats s') \<and> 0 \<le> failed (stats s')"
proof -
  from example_refused obtain tr' s' where
    first: "get_local (example_world Refused) example_tracker example_state example_url
            = Inr (''../assets/issues/5/001_abc.img'', tr', s')"
    by blast
  have fresh: "url_to_rel example_tracker example_url = None" "stats example_state = ImageStats_init"
    by (simp_all add: example_tracker_def example_state_def ImageTracker_init_def)
  from get_local_counters [where e = "example_world Refused" and tr = example_tracker
      and s = example_state and url = example_url]
    first fresh
  have
    "attempted (stats s') = 1"
    "downloaded (stats s') = 1 \<and> failed (stats s') = 0
     \<or> downloaded (stats s') = 0 \<and> failed (stats s') = 1"
    by (simp_all add: ImageStats_init_def)
  then show ?thesis using first by auto
qed

lemma example_bracket: "filename_from_url (\<lambda>loc. True) ''https://[h/a.png'' 1 = Inl ValueError"
  by code_simp

theorem get_local_counters_counterexample:
  "\<exists>tr' s'. get_local (example_world Refused) example_tracker example_state ''https://[h/a.png''
             = Inl (ValueError, tr', s')
     \<and> attempted (stats example_state)
         = downloaded (stats example_state) + failed (stats example_state)
     \<and> attempted (stats s') = 1 \<and> downloaded (stats s') = 0 \<and> failed (stats s') = 0
     \<and> attempted (stats s') \<noteq> downloaded (stats s') + failed (stats s')"
  by (simp add: get_local_def example_world_def example_tracker_def example_state_def
      ImageTracker_init_def ImageStats_init_def Let_def example_bracket)

text \<open>
  Claim C3. When a download fails, \<open>get_local\<close> adds one to the failure counter, returns the
  synthesized relative path and passes the URL and that path to the callback once. The source
  does this whenever \<open>download_image\<close> returns \<open>False\<close>; but a response with an empty body
  does not make \<open>download_image\<close> return \<open>False\<close>: the loop \<open>while chunk\<close> writes
  nothing, the empty file stays, and the call returns \<open>True\<close>. At the URL of the
  specification's example, in a world that answers every request with an empty body,
  \<open>get_local\<close> counts a download, counts no failure, emits no record and leaves an empty
  file behind.
\<close>

theorem get_local_empty_body:
  "\<exists>tr' s'. get_local (example_world (Body [])) example_tracker example_state example_url
             = Inr (''../assets/issues/5/001_abc.img'', tr', s')
     \<and> attempted (stats s') = 1 \<and> downloaded (stats s') = 1 \<and> failed (stats s') = 0
     \<and> missing_rows s' = []
     \<and> files s' [''export'', ''o_r'', ''assets'', ''issues'', ''5'', ''001_abc.img''] = Some []"
  by (simp add: get_local_def download_image_def repair_ext_def example_sniff
      example_world_def example_tracker_def
      example_state_def ImageTracker_init_def ImageStats_init_def Let_def example_filename
      example_candidates example_relpath example_suffix)

section \<open>Properties of the run over the repositories\<close>










section \<open>Properties of the closing keywords\<close>

lemma scan_fixes: "map fst (hits (scan ISSUE_FIX_PATTERN None ''Fixes #5'')) = [''Fixes #5'']"
  by code_simp

lemma scan_fix: "hits (scan ISSUE_FIX_PATTERN None ''Fix #5'') = []"
  by code_simp

text \<open>
  Claim C6. \<open>find_related_issues\<close> returns the known issue numbers that follow a closing
  keyword in the body of a pull request. The pattern of the source spells the first keyword
  \<open>fixe[sd]?\<close>: it accepts \<open>fixe\<close>, \<open>fixes\<close> and \<open>fixed\<close>, and does not accept \<open>fix\<close>, the
  singular of \<open>fixes\<close>. So the body \<open>Fix #5\<close> yields no issue although 5 is a known number,
  while \<open>Fixes #5\<close>, \<open>Close #5\<close> and \<open>Resolve #5\<close> yield it, and so does \<open>fixe #5\<close>.
\<close>

theorem find_related_issues_fix:
  "find_related_issues ''Fix #5'' {5} ''o'' ''r'' = []
   \<and> find_related_issues ''Fixes #5'' {5} ''o'' ''r'' = [5]
   \<and> find_related_issues ''Close #5'' {5} ''o'' ''r'' = [5]
   \<and> find_related_issues ''Resolve #5'' {5} ''o'' ''r'' = [5]
   \<and> find_related_issues ''fixe #5'' {5} ''o'' ''r'' = [5]"
  by code_simp


section \<open>Properties of the image references\<close>

lemma consume_drop: "fst (snd (consume k st)) = drop k (fst (snd st))"
  by (cases st) (simp add: consume_def)

lemma rmatch_drop:
  "st' \<in> set (rmatch r st) \<Longrightarrow> \<exists>k. fst (snd st') = drop k (fst (snd st))"
proof (induction r arbitrary: st st')
  case (Lit c)
  then show ?case by (cases st) (auto simp: consume_def split: if_splits)
next
  case (LitI c)
  then show ?case by (cases st) (auto simp: consume_def split: if_splits)
next
  case (Cls p)
  then show ?case by (cases st) (auto simp: consume_def split: if_splits)
next
  case WordB
  then have "st' = st" by (cases st) (auto split: if_splits)
  then have "fst (snd st') = drop 0 (fst (snd st))" by simp
  then show ?case by blast
next
  case (Seq a b)
  then obtain m where m: "m \<in> set (rmatch a st)" "st' \<in> set (rmatch b m)" by auto
  from Seq.IH(1) [OF m(1)] obtain k1 where k1: "fst (snd m) = drop k1 (fst (snd st))" by blast
  from Seq.IH(2) [OF m(2)] obtain k2 where k2: "fst (snd st') = drop k2 (fst (snd m))" by blast
  have "fst (snd st') = drop (k2 + k1) (fst (snd st))" using k1 k2 by simp
  then show ?case by blast
next
  case (Alt a b)
  from Alt.prems have "st' \<in> set (rmatch a st) \<or> st' \<in> set (rmatch b st)" by simp
  then show ?case
  proof
    assume "st' \<in> set (rmatch a st)"
    then show ?thesis by (rule Alt.IH(1))
  next
    assume "st' \<in> set (rmatch b st)"
    then show ?thesis by (rule Alt.IH(2))
  qed
next
  case (Opt a)
  then have "st' \<in> set (rmatch a st) \<or> st' = st" by auto
  then show ?case
  proof
    assume "st' \<in> set (rmatch a st)"
    then show ?thesis by (rule Opt.IH)
  next
    assume "st' = st"
    then have "fst (snd st') = drop 0 (fst (snd st))" by simp
    then show ?thesis by blast
  qed
next
  case (Star p)
  then obtain k where "st' = consume k st" by (cases st) auto
  then show ?case using consume_drop [of k st] by blast
next
  case (Plus p)
  then obtain k where "st' = consume k st" by (cases st) auto
  then show ?case using consume_drop [of k st] by blast
next
  case (LazyStar p)
  then obtain k where "st' = consume k st" by (cases st) auto
  then show ?case using consume_drop [of k st] by blast
next
  case (Grp n a)
  obtain pv s g where st: "st = (pv, s, g)" by (cases st) auto
  from Grp.prems obtain m where m: "m \<in> set (rmatch a st)" "fst (snd st') = fst (snd m)"
    by (auto simp: st)
  from Grp.IH [OF m(1)] show ?case using m(2) by simp
next
  case (Backref n)
  then obtain k where "st' = consume k st"
    by (cases st) (auto split: option.splits if_splits)
  then show ?case using consume_drop [of k st] by blast
qed

lemma take_drop_rest:
  assumes "s' = drop k s" and "length s' < length s"
  shows "take (length s - length s') s @ s' = s"
proof (cases "k < length s")
  case True
  then have "length s - length s' = k" using assms(1) by simp
  then show ?thesis using assms(1) by simp
next
  case False
  then show ?thesis using assms(1) by simp
qed

lemma scan_text: "concat (map piece_text (scan r pv s)) = s"
proof (induction "length s" arbitrary: pv s rule: less_induct)
  case less
  have step: "concat (map piece_text (scan r (Some x) xs)) = xs" if "s = x # xs" for x xs
    using less [of xs "Some x"] that by simp
  show ?case
  proof (cases "rmatch r (pv, s, [])")
    case Nil
    then show ?thesis using step
      by (subst scan.simps) (auto simp: piece_text_def split: list.splits)
  next
    case (Cons st' others)
    obtain pv' s' g where st': "st' = (pv', s', g)" by (cases st') auto
    show ?thesis
    proof (cases "length s' < length s")
      case True
      have "st' \<in> set (rmatch r (pv, s, []))" using Cons by simp
      from rmatch_drop [OF this] obtain k where "s' = drop k s" using st' by auto
      from take_drop_rest [OF this True]
      have t: "take (length s - length s') s @ s' = s" .
      have "concat (map piece_text (scan r pv' s')) = s'"
        using less [OF True] .
      then show ?thesis using Cons st' True t
        by (subst scan.simps) (simp add: piece_text_def)
    next
      case False
      then show ?thesis using Cons st' step
        by (subst scan.simps) (auto simp: piece_text_def split: list.splits)
    qed
  qed
qed

lemma download_image_raised_attempts:
  assumes "download_image e s url p tok = Inl (err, s')"
  shows "attempts s' = attempts s @ [url]"
proof -
  let ?s = "s\<lparr>attempts := attempts s @ [url]\<rparr>"
  have nf: "files ?s p = None"
    using assms by (auto simp: download_image_def Let_def split: if_splits)
  show ?thesis
  proof (cases "candidate_urls (netloc_ok e) url")
    case (Inl a)
    then show ?thesis using assms nf by (auto simp: download_image_def Let_def)
  next
    case (Inr cands)
    obtain ok1 s1 where t: "try_candidates e ?s tok p cands = (ok1, s1)"
      by (cases "try_candidates e ?s tok p cands") auto
    have f1: "attempts s1 = attempts s @ [url]"
      using try_candidates_frame [OF t] by simp
    have "s' = s1"
      using assms nf Inr t
      by (cases ok1; cases "is_user_attachment (netloc_ok e) url")
        (auto simp: download_image_def Let_def split: if_splits)
    then show ?thesis using f1 by simp
  qed
qed

lemma get_local_raised_attempts:
  assumes "get_local e tr s url = Inl (err, tr', s')"
  shows "attempts s' = attempts s \<or> attempts s' = attempts s @ [url]"
proof -
  let ?s1 = "s\<lparr>stats := (stats s)\<lparr>attempted := attempted (stats s) + 1\<rparr>\<rparr>"
  have miss: "url_to_rel tr url = None"
    using assms by (cases "url_to_rel tr url") (auto simp: get_local_def)
  show ?thesis
  proof (cases "filename_from_url (netloc_ok e) url (counter tr + 1)")
    case (Inl a)
    then show ?thesis using assms miss by (auto simp: get_local_def Let_def)
  next
    case (Inr filename)
    show ?thesis
    proof (cases "download_image e ?s1 url (assets_dir tr @ [filename]) (token tr)")
      case (Inl a)
      obtain err2 s2 where a: "a = (err2, s2)" by (cases a) auto
      have "s' = s2"
        using assms miss Inr Inl a by (auto simp: get_local_def Let_def)
      then show ?thesis
        using download_image_raised_attempts [OF Inl [unfolded a]] by simp
    next
      case dl: (Inr b)
      obtain ok s2 where b: "b = (ok, s2)" by (cases b) auto
      obtain p3 s3 where rp: "repair_ext e s2 (assets_dir tr @ [filename]) = (p3, s3)"
        by (cases "repair_ext e s2 (assets_dir tr @ [filename])") auto
      have False
        using assms miss Inr dl b rp by (cases ok) (auto simp: get_local_def Let_def)
      then show ?thesis ..
    qed
  qed
qed

lemma scan_Nil: "scan r pv [] = []"
  by (subst scan.simps) (auto split: list.splits)

lemma get_local_other:
  assumes "u \<noteq> url"
  shows "case get_local e tr s url of
           Inl (err, tr', s') \<Rightarrow>
             url_to_rel tr' u = url_to_rel tr u
             \<and> count_list (attempts s') u = count_list (attempts s) u
         | Inr (rel, tr', s') \<Rightarrow>
             url_to_rel tr' u = url_to_rel tr u
             \<and> count_list (attempts s') u = count_list (attempts s) u"
proof (cases "get_local e tr s url")
  case (Inl a)
  obtain err tr' s' where a: "a = (err, tr', s')" by (cases a) auto
  note r = Inl [unfolded a]
  have "url_to_rel tr' = url_to_rel tr" using get_local_raised [OF r] by simp
  moreover have "count_list (attempts s') u = count_list (attempts s) u"
    using get_local_raised_attempts [OF r] assms by auto
  ultimately show ?thesis using Inl a by simp
next
  case (Inr b)
  obtain rel tr' s' where b: "b = (rel, tr', s')" by (cases b) auto
  note r = Inr [unfolded b]
  show ?thesis
  proof (cases "url_to_rel tr url")
    case None
    from get_local_miss [OF None r] have
      "tr' = tr\<lparr>counter := counter tr + 1, url_to_rel := (url_to_rel tr)(url \<mapsto> rel)\<rparr>"
      "attempts s' = attempts s @ [url]"
      by auto
    then show ?thesis using Inr b assms by simp
  next
    case (Some x)
    then show ?thesis using r get_local_cached [OF Some, of e s] Inr b by simp
  qed
qed

lemma repl_kept: "excluded_url (match_url g) \<Longrightarrow> repl e tr s (m, g) = Inr (m, tr, s)"
  by (auto simp: repl_def excluded_url_def Let_def)

lemma repl_frame:
  assumes "excluded_url u"
  shows "case repl e tr s m of
           Inl (err, tr', s') \<Rightarrow>
             url_to_rel tr' u = url_to_rel tr u
             \<and> count_list (attempts s') u = count_list (attempts s) u
         | Inr (t, tr', s') \<Rightarrow>
             url_to_rel tr' u = url_to_rel tr u
             \<and> count_list (attempts s') u = count_list (attempts s) u"
proof (cases "excluded_url (match_url (snd m)) \<or> match_url (snd m) = []")
  case True
  then have "repl e tr s m = Inr (fst m, tr, s)"
    by (auto simp: repl_def excluded_url_def Let_def)
  then show ?thesis by simp
next
  case False
  then have ne: "u \<noteq> match_url (snd m)" using assms by auto
  have r: "repl e tr s m =
           (case get_local e tr s (match_url (snd m)) of
              Inl x \<Rightarrow> Inl x
            | Inr (local, tr', s') \<Rightarrow>
                Inr (replace_first (match_url (snd m)) local (fst m), tr', s'))"
    using False by (auto simp: repl_def excluded_url_def Let_def)
  show ?thesis
    using get_local_other [OF ne, where e = e and tr = tr and s = s]
    by (cases "get_local e tr s (match_url (snd m))") (auto simp: r)
qed

lemma sub_frame:
  assumes "excluded_url u"
  shows "case sub e tr s ps of
           Inl (err, tr', s') \<Rightarrow>
             url_to_rel tr' u = url_to_rel tr u
             \<and> count_list (attempts s') u = count_list (attempts s) u
         | Inr (out, tr', s') \<Rightarrow>
             url_to_rel tr' u = url_to_rel tr u
             \<and> count_list (attempts s') u = count_list (attempts s) u"
proof (induction ps arbitrary: tr s)
  case Nil
  then show ?case by simp
next
  case (Cons p ps)
  show ?case
  proof (cases p)
    case (Skip c)
    then show ?thesis using Cons [of tr s]
      by (cases "sub e tr s ps") auto
  next
    case (Hit m g)
    show ?thesis
    proof (cases "repl e tr s (m, g)")
      case (Inl a)
      then show ?thesis using repl_frame [OF assms, where e = e and tr = tr and s = s and m = "(m, g)"] Hit by auto
    next
      case (Inr b)
      obtain t tr1 s1 where b: "b = (t, tr1, s1)" by (cases b) auto
      have f1: "url_to_rel tr1 u = url_to_rel tr u
                \<and> count_list (attempts s1) u = count_list (attempts s) u"
        using repl_frame [OF assms, where e = e and tr = tr and s = s and m = "(m, g)"] Inr b by simp
      show ?thesis using Cons [of tr1 s1] f1 Inr b Hit
        by (cases "sub e tr1 s1 ps") auto
    qed
  qed
qed

lemma sub_outs:
  "sub e tr s ps = Inr (out, tr', s') \<Longrightarrow>
   \<exists>outs. out = concat outs \<and> list_all2 (\<lambda>p t. kept p \<longrightarrow> t = piece_text p) ps outs"
proof (induction ps arbitrary: tr s out)
  case Nil
  then show ?case by simp
next
  case (Cons p ps)
  show ?case
  proof (cases p)
    case (Skip c)
    then obtain out1 where o: "sub e tr s ps = Inr (out1, tr', s')" "out = c # out1"
      using Cons.prems by (auto split: sum.splits)
    from Cons.IH [OF o(1)] obtain outs where
      "out1 = concat outs" "list_all2 (\<lambda>p t. kept p \<longrightarrow> t = piece_text p) ps outs"
      by blast
    then have "out = concat ([c] # outs)
               \<and> list_all2 (\<lambda>p t. kept p \<longrightarrow> t = piece_text p) (p # ps) ([c] # outs)"
      using o(2) Skip by (simp add: piece_text_def)
    then show ?thesis by blast
  next
    case (Hit m g)
    then obtain t tr1 s1 out1 where o: "repl e tr s (m, g) = Inr (t, tr1, s1)"
      "sub e tr1 s1 ps = Inr (out1, tr', s')" "out = t @ out1"
      using Cons.prems by (auto split: sum.splits)
    from Cons.IH [OF o(2)] obtain outs where
      os: "out1 = concat outs" "list_all2 (\<lambda>p t. kept p \<longrightarrow> t = piece_text p) ps outs"
      by blast
    have "kept p \<longrightarrow> t = piece_text p"
      using o(1) Hit by (auto simp: kept_def piece_text_def repl_kept)
    then have "out = concat (t # outs)
               \<and> list_all2 (\<lambda>p t. kept p \<longrightarrow> t = piece_text p) (p # ps) (t # outs)"
      using o(3) os by simp
    then show ?thesis by blast
  qed
qed

lemma sub_all_kept:
  "list_all kept ps \<Longrightarrow> sub e tr s ps = Inr (concat (map piece_text ps), tr, s)"
proof (induction ps)
  case Nil
  then show ?case by simp
next
  case (Cons p ps)
  then show ?case
    by (cases p) (simp_all add: kept_def piece_text_def repl_kept)
qed

lemma replace_images_sub: "replace_images e tr s text = sub e tr s (scan IMG_PATTERN None text)"
  by (simp add: replace_images_def scan_Nil)

text \<open>
  Claim C7. \<open>replace_images\<close> cuts the text into the matches of \<open>IMG_PATTERN\<close> and the
  characters between them, and these pieces make up the text. The output is made of one
  part for each piece, in order, and the part of a character outside the matches, and of a
  match whose URL begins with \<open>data:\<close> or with neither \<open>http://\<close> nor \<open>https://\<close>, is that
  piece itself. For such a match \<open>repl\<close> returns the match and leaves the tracker and the
  program state as they are. Whatever else the text holds, and whether the call returns or
  is left by an exception, an excluded URL is in the tracker's cache after the call iff it
  was before, and \<open>download_image\<close> was called for it as often after the call as before. When
  all the matches of a text have excluded URLs, the call returns the text and changes
  nothing.
\<close>

theorem replace_images_frame:
  "concat (map piece_text (scan IMG_PATTERN None body)) = body
   \<and> (excluded_url (match_url g) \<longrightarrow> repl e tr s (m, g) = Inr (m, tr, s))
   \<and> (case replace_images e tr s body of
        Inl (err, tr', s') \<Rightarrow>
          (\<forall>u. excluded_url u \<longrightarrow>
                url_to_rel tr' u = url_to_rel tr u
                \<and> count_list (attempts s') u = count_list (attempts s) u)
      | Inr (out, tr', s') \<Rightarrow>
          (\<exists>outs. out = concat outs
             \<and> list_all2 (\<lambda>p t. kept p \<longrightarrow> t = piece_text p) (scan IMG_PATTERN None body) outs)
          \<and> (\<forall>u. excluded_url u \<longrightarrow>
                url_to_rel tr' u = url_to_rel tr u
                \<and> count_list (attempts s') u = count_list (attempts s) u))
   \<and> (list_all kept (scan IMG_PATTERN None body) \<longrightarrow>
        replace_images e tr s body = Inr (body, tr, s))"
proof (intro conjI)
  show "concat (map piece_text (scan IMG_PATTERN None body)) = body" by (rule scan_text)
  show "excluded_url (match_url g) \<longrightarrow> repl e tr s (m, g) = Inr (m, tr, s)"
    by (simp add: repl_kept)
  show "list_all kept (scan IMG_PATTERN None body) \<longrightarrow>
        replace_images e tr s body = Inr (body, tr, s)"
    by (simp add: replace_images_sub sub_all_kept scan_text)
  show "case replace_images e tr s body of
        Inl (err, tr', s') \<Rightarrow>
          (\<forall>u. excluded_url u \<longrightarrow>
                url_to_rel tr' u = url_to_rel tr u
                \<and> count_list (attempts s') u = count_list (attempts s) u)
      | Inr (out, tr', s') \<Rightarrow>
          (\<exists>outs. out = concat outs
             \<and> list_all2 (\<lambda>p t. kept p \<longrightarrow> t = piece_text p) (scan IMG_PATTERN None body) outs)
          \<and> (\<forall>u. excluded_url u \<longrightarrow>
                url_to_rel tr' u = url_to_rel tr u
                \<and> count_list (attempts s') u = count_list (attempts s) u)"
  proof (cases "sub e tr s (scan IMG_PATTERN None body)")
    case (Inl a)
    obtain err tr' s' where a: "a = (err, tr', s')" by (cases a) auto
    have "\<forall>u. excluded_url u \<longrightarrow>
                url_to_rel tr' u = url_to_rel tr u
                \<and> count_list (attempts s') u = count_list (attempts s) u"
    proof (intro allI impI)
      fix u assume "excluded_url u"
      from sub_frame [OF this, where e = e and tr = tr and s = s and ps = "scan IMG_PATTERN None body"] Inl a
      show "url_to_rel tr' u = url_to_rel tr u
            \<and> count_list (attempts s') u = count_list (attempts s) u" by simp
    qed
    then show ?thesis using Inl a by (simp add: replace_images_sub)
  next
    case (Inr b)
    obtain out tr' s' where b: "b = (out, tr', s')" by (cases b) auto
    have 1: "\<forall>u. excluded_url u \<longrightarrow>
                url_to_rel tr' u = url_to_rel tr u
                \<and> count_list (attempts s') u = count_list (attempts s) u"
    proof (intro allI impI)
      fix u assume "excluded_url u"
      from sub_frame [OF this, where e = e and tr = tr and s = s and ps = "scan IMG_PATTERN None body"] Inr b
      show "url_to_rel tr' u = url_to_rel tr u
            \<and> count_list (attempts s') u = count_list (attempts s) u" by simp
    qed
    have 2: "\<exists>outs. out = concat outs
             \<and> list_all2 (\<lambda>p t. kept p \<longrightarrow> t = piece_text p) (scan IMG_PATTERN None body) outs"
      using sub_outs [OF Inr [unfolded b]] .
    show ?thesis using Inr b 1 2 by (simp add: replace_images_sub)
  qed
qed


lemma example_text_hits:
  "map (\<lambda>(m, g). (m, match_url g)) (hits (scan IMG_PATTERN None example_text))
   = [(''![x](data:image/png;base64,AA==)'', ''data:image/png;base64,AA==''),
      (''<img src=pic.png>'', ''pic.png''),
      (''<IMG SRC='' @ [CHR 0x22] @ ''../p.png'' @ [CHR 0x22] @ ''>'', ''../p.png'')]"
  by code_simp

lemma example_text_kept: "list_all kept (scan IMG_PATTERN None example_text)"
  by code_simp

lemma example_mixed_pieces:
  "scan IMG_PATTERN None example_mixed
   = [Hit ''![a](https://example.com/user-attachments/assets/abc)''
        [(''md_url'', example_url)],
      Skip CHR '' '',
      Hit ''![b](data:x)'' [(''md_url'', ''data:x'')]]"
  by code_simp

lemma example_mixed_urls:
  "match_url [(''md_url'', example_url)] = example_url"
  "match_url [(''md_url'', ''data:x'')] = ''data:x''"
  "excluded_url ''data:x''" "\<not> excluded_url example_url" "example_url \<noteq> []"
  "startswith example_url ''data:'' = False"
  "startswith example_url ''http://'' = False" "startswith example_url ''https://'' = True"
  by code_simp+

lemma example_mixed_replace:
  "replace_first example_url ''../assets/issues/5/001_abc.img''
     ''![a](https://example.com/user-attachments/assets/abc)''
   = ''![a](../assets/issues/5/001_abc.img)''"
  by code_simp

theorem replace_images_frame_witness:
  "list_all kept (scan IMG_PATTERN None example_text)
   \<and> replace_images (example_world Refused) example_tracker example_state example_text
       = Inr (example_text, example_tracker, example_state)
   \<and> (\<exists>tr' s'. replace_images (example_world Refused) example_tracker example_state example_mixed
         = Inr (''![a](../assets/issues/5/001_abc.img) ![b](data:x)'', tr', s')
         \<and> url_to_rel tr' ''data:x'' = None \<and> count_list (attempts s') ''data:x'' = 0)"
proof -
  note t = replace_images_frame [where e = "example_world Refused" and tr = example_tracker
      and s = example_state]
  have 1: "replace_images (example_world Refused) example_tracker example_state example_text
       = Inr (example_text, example_tracker, example_state)"
    using t [where body = example_text] example_text_kept by blast
  from example_refused obtain tr1 s1 where
    g: "get_local (example_world Refused) example_tracker example_state example_url
        = Inr (''../assets/issues/5/001_abc.img'', tr1, s1)"
    by blast
  have r: "replace_images (example_world Refused) example_tracker example_state example_mixed
         = Inr (''![a](../assets/issues/5/001_abc.img) ![b](data:x)'', tr1, s1)"
  proof -
    have r1: "repl (example_world Refused) example_tracker example_state
                (''![a](https://example.com/user-attachments/assets/abc)'',
                 [(''md_url'', example_url)])
              = Inr (''![a](../assets/issues/5/001_abc.img)'', tr1, s1)"
      by (simp add: repl_def Let_def example_mixed_urls g example_mixed_replace
          del: replace_first.simps)
    have r2: "repl (example_world Refused) tr1 s1 (''![b](data:x)'', [(''md_url'', ''data:x'')])
              = Inr (''![b](data:x)'', tr1, s1)"
      by (rule repl_kept) (simp add: example_mixed_urls)
    show ?thesis
      by (simp add: replace_images_sub example_mixed_pieces r1 r2)
  qed
  have "\<forall>u. excluded_url u \<longrightarrow>
          url_to_rel tr1 u = url_to_rel example_tracker u
          \<and> count_list (attempts s1) u = count_list (attempts example_state) u"
    using t [where body = example_mixed] r by simp
  then have "url_to_rel tr1 ''data:x'' = url_to_rel example_tracker ''data:x''
          \<and> count_list (attempts s1) ''data:x'' = count_list (attempts example_state) ''data:x''"
    using example_mixed_urls(3) by blast
  then have 2: "url_to_rel tr1 ''data:x'' = None \<and> count_list (attempts s1) ''data:x'' = 0"
    by (simp add: example_tracker_def example_state_def ImageTracker_init_def)
  from 1 2 r example_text_kept show ?thesis by blast
qed


section \<open>Properties of the clean-up\<close>

lemma rename_img_no_file: "\<not> is_file fs img \<Longrightarrow> rename_img e export_root img (fs, rw) = (fs, rw)"
  by (simp add: rename_img_def is_file_def detect_ext_def)

lemma fold_rename_img_no_files:
  "list_all (\<lambda>p. \<not> is_file fs p) imgs \<Longrightarrow>
   fold (rename_img e export_root) imgs (fs, rw) = (fs, rw)"
  by (induction imgs) (simp_all add: rename_img_no_file)

lemma apply_rewrites_Nil: "apply_rewrites [] t = t"
  by (simp add: apply_rewrites_def)

lemma fix_refs_unresolved:
  "list_all (\<lambda>r. resolve_ref fs md r = None) rs \<Longrightarrow>
   fix_refs fs md rs u = Inr u \<or> fix_refs fs md rs u = Inl ValueError"
  by (induction rs) auto

lemma update_md_unresolved:
  assumes "list_all (\<lambda>r. resolve_ref fs md r = None)
             (findall img_ref_pattern ''path'' (md_text e fs md))"
  shows "update_md e [] fs md = Inr fs \<or> (\<exists>err. update_md e [] fs md = Inl err)"
proof -
  let ?ms = "sort_key (set_order e md)
               (remdups (findall img_ref_pattern ''path'' (md_text e fs md)))"
  have "set ?ms = set (findall img_ref_pattern ''path'' (md_text e fs md))" by simp
  then have "list_all (\<lambda>r. resolve_ref fs md r = None) ?ms"
    using assms by (simp add: list_all_iff)
  from fix_refs_unresolved [OF this, of "md_text e fs md"] show ?thesis
    by (auto simp: update_md_def apply_rewrites_Nil Let_def)
qed

lemma update_mds_unresolved:
  "list_all (\<lambda>md. list_all (\<lambda>r. resolve_ref fs md r = None)
                     (findall img_ref_pattern ''path'' (md_text e fs md))) mds \<Longrightarrow>
   snd (update_mds e [] fs mds) = fs"
proof (induction mds)
  case Nil
  then show ?case by simp
next
  case (Cons md mds)
  then have "update_md e [] fs md = Inr fs \<or> (\<exists>err. update_md e [] fs md = Inl err)"
    using update_md_unresolved [of fs md e] by simp
  then show ?case using Cons by auto
qed

lemma update_mds_status: "fst (update_mds e rw fs mds) \<noteq> Returned 1"
  by (induction mds arbitrary: fs) (auto split: sum.splits)

text \<open>
  Claim C9, as amended. When no file below the export root has a name that ends in \<open>.img\<close>,
  and no Markdown file below it holds a \<open>.img\<close> reference for which the script finds an
  image (a path with the same stem and one of the extensions \<open>.png\<close>, \<open>.jpg\<close>, \<open>.jpeg\<close>,
  \<open>.gif\<close>, \<open>.webp\<close>, or else a file of the same directory with the same prefix up to the
  first underscore and one of these extensions), a run of the script leaves the file system
  as it is. It returns the status 1 exactly when the export root does not exist.
\<close>

theorem cleanup_no_op:
  assumes "list_all (\<lambda>p. \<not> is_file fs p) (rglob fs export_root ''.img'')"
    and "list_all (\<lambda>md. list_all (\<lambda>r. resolve_ref fs md r = None)
                            (findall img_ref_pattern ''path'' (md_text e fs md)))
           (rglob fs export_root ''.md'')"
  shows "snd (cleanup_main e fs export_root) = fs
         \<and> (fst (cleanup_main e fs export_root) = Returned 1 \<longleftrightarrow> \<not> path_exists fs export_root)"
proof (cases "path_exists fs export_root")
  case False
  then show ?thesis by (simp add: cleanup_main_def)
next
  case True
  have f: "fold (rename_img e export_root) (rglob fs export_root ''.img'') (fs, []) = (fs, [])"
    using assms(1) by (rule fold_rename_img_no_files)
  have m: "cleanup_main e fs export_root = update_mds e [] fs (rglob fs export_root ''.md'')"
    using True by (simp add: cleanup_main_def f)
  show ?thesis
    using True update_mds_unresolved [OF assms(2)] update_mds_status [of e "[]" fs]
    by (simp add: m)
qed

lemma example_dangling:
  "rglob (example_tree (example_ref ''../assets/issues/5/002_b.img'')) [''export''] ''.img'' = []"
  "rglob (example_tree (example_ref ''../assets/issues/5/002_b.img'')) [''export''] ''.md''
   = [example_md]"
  "findall img_ref_pattern ''path''
     (md_text example_codec (example_tree (example_ref ''../assets/issues/5/002_b.img'')) example_md)
   = [''../assets/issues/5/002_b.img'']"
  "resolve_ref (example_tree (example_ref ''../assets/issues/5/002_b.img'')) example_md
     ''../assets/issues/5/002_b.img'' = None"
  by code_simp+

theorem cleanup_no_op_witness:
  "rglob (example_tree (example_ref ''../assets/issues/5/002_b.img'')) [''export''] ''.img'' = []
   \<and> findall img_ref_pattern ''path''
       (md_text example_codec (example_tree (example_ref ''../assets/issues/5/002_b.img'')) example_md)
      = [''../assets/issues/5/002_b.img'']
   \<and> resolve_ref (example_tree (example_ref ''../assets/issues/5/002_b.img'')) example_md
       ''../assets/issues/5/002_b.img'' = None
   \<and> snd (cleanup_main example_codec (example_tree (example_ref ''../assets/issues/5/002_b.img''))
            [''export''])
      = example_tree (example_ref ''../assets/issues/5/002_b.img'')
   \<and> fst (cleanup_main example_codec (example_tree (example_ref ''../assets/issues/5/002_b.img''))
            [''export'']) \<noteq> Returned 1"
proof -
  let ?T = "example_tree (example_ref ''../assets/issues/5/002_b.img'')"
  have h1: "list_all (\<lambda>p. \<not> is_file ?T p) (rglob ?T [''export''] ''.img'')"
    by (simp add: example_dangling)
  have h2: "list_all (\<lambda>md. list_all (\<lambda>r. resolve_ref ?T md r = None)
                            (findall img_ref_pattern ''path'' (md_text example_codec ?T md)))
              (rglob ?T [''export''] ''.md'')"
    by (simp add: example_dangling)
  have ex: "path_exists ?T [''export'']" by code_simp
  from cleanup_no_op [OF h1 h2] ex example_dangling show ?thesis by simp
qed

theorem cleanup_stale_ref_counterexample:
  "rglob (example_tree (example_ref ''../assets/issues/5/001_a.img'')) [''export''] ''.img'' = []
   \<and> cleanup_main example_codec (example_tree (example_ref ''../assets/issues/5/001_a.img''))
        [''export'']
      = (Returned 0, example_tree (example_ref ''../assets/issues/5/001_a.png''))
   \<and> example_tree (example_ref ''../assets/issues/5/001_a.png'')
      \<noteq> example_tree (example_ref ''../assets/issues/5/001_a.img'')"
  by code_simp


end
